theory Spec2Isabelle
  imports Complex_Main "HOL-Library.Log_Nat"
begin

section \<open>JavaScript values\<close>

text \<open>
  The animation records handled by \<^verbatim>\<open>LoopOptimizer\<close> are plain JavaScript data: what
  \<^verbatim>\<open>JSON.parse\<close> produces from the request body or from the text area of the page, plus
  \<^verbatim>\<open>undefined\<close> (an argument or a property that is missing) and \<^verbatim>\<open>NaN\<close> (the quotient
  \<^verbatim>\<open>undefined / 30\<close>).  A value is a tree; an object is the list of its own properties in
  enumeration order; an array carries its elements and the named properties that an
  assignment such as \<^verbatim>\<open>optimized.metadata = ...\<close> may hang on it.

  A number is a binary64 value: \<open>JNum q\<close> is the finite one whose value is the rational \<open>q\<close>
  (the two zeros are one value here: they are equal under \<^verbatim>\<open>===\<close>, have the same JSON text,
  and no operation of the source tells them apart), \<open>JInf neg\<close> is \<^verbatim>\<open>Infinity\<close> or
  \<^verbatim>\<open>-Infinity\<close>.  Strings are lists of code units below 256.  Functions, symbols, getters,
  \<^verbatim>\<open>toJSON\<close> methods and prototypes other than the built-in ones are outside the embedding.
\<close>

datatype jsval =
    JUndefined
  | JNull
  | JBool bool
  | JNum rat
  | JNaN
  | JStr string
  | JArr "jsval list" "(string \<times> jsval) list"
  | JObj "(string \<times> jsval) list"
  | JInf bool

text \<open>The errors the code can end with: the two \<^verbatim>\<open>Error\<close>s that the class throws itself,
  and the two that the language raises for it.\<close>

datatype error =
    NotInitialized         \<comment> \<open>\<^verbatim>\<open>Error('LoopOptimizer not properly initialized')\<close>\<close>
  | InvalidAnimationData   \<comment> \<open>\<^verbatim>\<open>Error('Invalid animation data')\<close>\<close>
  | TypeError              \<comment> \<open>a property written on a primitive (class bodies are strict) or read from \<^verbatim>\<open>null\<close>, an object that has no primitive value\<close>
  | SyntaxError            \<comment> \<open>\<^verbatim>\<open>JSON.parse(undefined)\<close>\<close>

text \<open>\<^verbatim>\<open>!v\<close> is false exactly on the truthy values.\<close>

fun truthy :: "jsval \<Rightarrow> bool" where
  "truthy JUndefined = False"
| "truthy JNull = False"
| "truthy (JBool b) = b"
| "truthy (JNum q) = (q \<noteq> 0)"
| "truthy JNaN = False"
| "truthy (JStr s) = (s \<noteq> [])"
| "truthy (JArr xs ps) = True"
| "truthy (JObj kvs) = True"
| "truthy (JInf neg) = True"

fun js_typeof :: "jsval \<Rightarrow> string" where
  "js_typeof JUndefined = ''undefined''"
| "js_typeof JNull = ''object''"
| "js_typeof (JBool b) = ''boolean''"
| "js_typeof (JNum q) = ''number''"
| "js_typeof JNaN = ''number''"
| "js_typeof (JStr s) = ''string''"
| "js_typeof (JArr xs ps) = ''object''"
| "js_typeof (JObj kvs) = ''object''"
| "js_typeof (JInf neg) = ''number''"

text \<open>\<^verbatim>\<open>a || b\<close> on values.\<close>

definition js_or :: "jsval \<Rightarrow> jsval \<Rightarrow> jsval" where
  "js_or a b = (if truthy a then a else b)"

fun isArray :: "jsval \<Rightarrow> bool" where
  "isArray (JArr xs ps) = True"
| "isArray v = False"

subsection \<open>Property keys\<close>

definition digit_char :: "nat \<Rightarrow> char" where
  "digit_char d = char_of (48 + d)"

text \<open>The decimal numeral of a natural number, as \<^verbatim>\<open>String(n)\<close> prints it.\<close>

function nat_to_string :: "nat \<Rightarrow> string" where
  "nat_to_string n =
     (if n < 10 then [digit_char n] else nat_to_string (n div 10) @ [digit_char (n mod 10)])"
  by pat_completeness auto
termination
  by (relation "measure (\<lambda>n. n)") auto

definition is_digit :: "char \<Rightarrow> bool" where
  "is_digit c = (48 \<le> (of_char c :: nat) \<and> (of_char c :: nat) \<le> 57)"

definition digits_value :: "string \<Rightarrow> nat" where
  "digits_value s = foldl (\<lambda>a c. 10 * a + ((of_char c :: nat) - 48)) 0 s"

text \<open>A property key is an array index when it is the canonical numeral of an integer
  below \<open>2\<^sup>3\<^sup>2 - 1\<close>.  An object enumerates such keys first, in ascending order, and its
  other keys after them in the order of their creation.\<close>

definition key_index :: "string \<Rightarrow> nat option" where
  "key_index k =
     (if k \<noteq> [] \<and> list_all is_digit k \<and> (k = ''0'' \<or> hd k \<noteq> CHR ''0'')
         \<and> digits_value k < 4294967295
      then Some (digits_value k) else None)"

text \<open>Where a new key goes in the list of own properties.\<close>

fun insert_key :: "string \<Rightarrow> 'v \<Rightarrow> (string \<times> 'v) list \<Rightarrow> (string \<times> 'v) list" where
  "insert_key k v [] = [(k, v)]"
| "insert_key k v ((k', v') # kvs) =
     (case key_index k of
        None \<Rightarrow> (k', v') # insert_key k v kvs
      | Some i \<Rightarrow>
          (case key_index k' of
             None \<Rightarrow> (k, v) # (k', v') # kvs
           | Some j \<Rightarrow> if i < j then (k, v) # (k', v') # kvs else (k', v') # insert_key k v kvs))"

text \<open>\<^verbatim>\<open>o[k] = v\<close> on the own properties of an object: an existing key keeps its place.\<close>

definition obj_put :: "(string \<times> 'v) list \<Rightarrow> string \<Rightarrow> 'v \<Rightarrow> (string \<times> 'v) list" where
  "obj_put kvs k v =
     (if k \<in> fst ` set kvs
      then map (\<lambda>(k', v'). if k' = k then (k', v) else (k', v')) kvs
      else insert_key k v kvs)"

text \<open>The own enumerable properties that a spread \<^verbatim>\<open>{...v}\<close> copies.\<close>

fun own_props :: "jsval \<Rightarrow> (string \<times> jsval) list" where
  "own_props (JObj kvs) = kvs"
| "own_props (JArr xs ps) = map (\<lambda>i. (nat_to_string i, xs ! i)) [0..<length xs] @ ps"
| "own_props (JStr s) = map (\<lambda>i. (nat_to_string i, JStr [s ! i])) [0..<length s]"
| "own_props v = []"

text \<open>\<^verbatim>\<open>{...kvs, ...v}\<close>: the properties of \<open>v\<close> are written one after the other.\<close>

definition spread :: "(string \<times> jsval) list \<Rightarrow> jsval \<Rightarrow> (string \<times> jsval) list" where
  "spread kvs v = foldl (\<lambda>acc (k, x). obj_put acc k x) kvs (own_props v)"

text \<open>
  \<^verbatim>\<open>v.k\<close> and \<^verbatim>\<open>v[k]\<close>.  The receiver is never \<^verbatim>\<open>undefined\<close> or \<^verbatim>\<open>null\<close> where the source
  reads a property (the callers below check for it); properties inherited from the
  prototypes are not modelled, none of the names read by the source is one.
\<close>

fun js_get :: "jsval \<Rightarrow> string \<Rightarrow> jsval" where
  "js_get (JObj kvs) k = (case map_of kvs k of Some v \<Rightarrow> v | None \<Rightarrow> JUndefined)"
| "js_get (JArr xs ps) k =
     (if k = ''length'' then JNum (of_nat (length xs))
      else case key_index k of
        Some i \<Rightarrow> if i < length xs then xs ! i else JUndefined
      | None \<Rightarrow> (case map_of ps k of Some v \<Rightarrow> v | None \<Rightarrow> JUndefined))"
| "js_get (JStr s) k =
     (if k = ''length'' then JNum (of_nat (length s))
      else case key_index k of
        Some i \<Rightarrow> if i < length s then JStr [s ! i] else JUndefined
      | None \<Rightarrow> JUndefined)"
| "js_get v k = JUndefined"

text \<open>
  \<^verbatim>\<open>v.k = x\<close> in strict code, for the property names the source assigns (\<^verbatim>\<open>frames\<close>,
  \<^verbatim>\<open>metadata\<close>, \<^verbatim>\<open>optimized\<close>, \<^verbatim>\<open>optimizationDate\<close>, \<^verbatim>\<open>optimizationOptions\<close>; none is an
  index or \<^verbatim>\<open>length\<close>).  Writing on a primitive throws.
\<close>

fun js_set :: "jsval \<Rightarrow> string \<Rightarrow> jsval \<Rightarrow> error + jsval" where
  "js_set (JObj kvs) k x = Inr (JObj (obj_put kvs k x))"
| "js_set (JArr xs ps) k x = Inr (JArr xs (obj_put ps k x))"
| "js_set v k x = Inl TypeError"

subsection \<open>\<^verbatim>\<open>JSON.stringify\<close> and the copy through JSON\<close>

definition hex_digit :: "nat \<Rightarrow> char" where
  "hex_digit d = (if d < 10 then char_of (48 + d) else char_of (87 + d))"

text \<open>One code unit inside a JSON string literal (\<^verbatim>\<open>QuoteJSONString\<close>): the quote and the
  backslash are escaped, a control character is written \<^verbatim>\<open>\b \t \n \f \r\<close> or
  \<^verbatim>\<open>\u00xx\<close>.\<close>

definition quote_char :: "char \<Rightarrow> string" where
  "quote_char c =
     (let n = (of_char c :: nat) in
      if n = 34 then [CHR 0x5C, CHR 0x22]
      else if n = 92 then [CHR 0x5C, CHR 0x5C]
      else if n = 8 then [CHR 0x5C, CHR ''b'']
      else if n = 9 then [CHR 0x5C, CHR ''t'']
      else if n = 10 then [CHR 0x5C, CHR ''n'']
      else if n = 12 then [CHR 0x5C, CHR ''f'']
      else if n = 13 then [CHR 0x5C, CHR ''r'']
      else if n < 32 then [CHR 0x5C, CHR ''u'', CHR ''0'', CHR ''0'', hex_digit (n div 16), hex_digit (n mod 16)]
      else [c])"

definition quote_json :: "string \<Rightarrow> string" where
  "quote_json s = CHR 0x22 # concat (map quote_char s) @ [CHR 0x22]"

fun join_commas :: "string list \<Rightarrow> string" where
  "join_commas [] = []"
| "join_commas [s] = s"
| "join_commas (s # t # ss) = s @ '','' @ join_commas (t # ss)"

text \<open>An array element that has no JSON text is written \<^verbatim>\<open>null\<close>; an object member that
  has none is left out.\<close>

definition element_text :: "string option \<Rightarrow> string" where
  "element_text t = (case t of None \<Rightarrow> ''null'' | Some s \<Rightarrow> s)"

fun member_texts :: "(string \<times> string option) list \<Rightarrow> string list" where
  "member_texts [] = []"
| "member_texts ((k, None) # kvs) = member_texts kvs"
| "member_texts ((k, Some s) # kvs) = (quote_json k @ '':'' @ s) # member_texts kvs"

text \<open>
  \<^verbatim>\<open>JSON.stringify(v)\<close>; \<open>None\<close> is the result \<^verbatim>\<open>undefined\<close>.  The text of a finite number
  (\<^verbatim>\<open>Number::toString\<close>, the shortest numeral that reads back as the same binary64 value)
  is the parameter \<open>ns\<close>: the properties below hold for every such function.
\<close>

primrec json_stringify :: "(rat \<Rightarrow> string) \<Rightarrow> jsval \<Rightarrow> string option" where
  "json_stringify ns JUndefined = None"
| "json_stringify ns JNull = Some ''null''"
| "json_stringify ns (JBool b) = Some (if b then ''true'' else ''false'')"
| "json_stringify ns (JNum q) = Some (ns q)"
| "json_stringify ns JNaN = Some ''null''"
| "json_stringify ns (JStr s) = Some (quote_json s)"
| "json_stringify ns (JArr xs ps) =
     Some (''['' @ join_commas (map element_text (map (json_stringify ns) xs)) @ '']'')"
| "json_stringify ns (JObj kvs) =
     Some (''{'' @ join_commas (member_texts (map (map_prod id (json_stringify ns)) kvs)) @ ''}'')"
| "json_stringify ns (JInf neg) = Some ''null''"

definition element_copy :: "jsval option \<Rightarrow> jsval" where
  "element_copy c = (case c of None \<Rightarrow> JNull | Some v \<Rightarrow> v)"

fun member_copies :: "(string \<times> jsval option) list \<Rightarrow> (string \<times> jsval) list" where
  "member_copies [] = []"
| "member_copies ((k, None) # kvs) = member_copies kvs"
| "member_copies ((k, Some v) # kvs) = (k, v) # member_copies kvs"

text \<open>
  \<^verbatim>\<open>JSON.parse(JSON.stringify(v))\<close>, the value that is read back from the text of \<open>v\<close>:
  \<^verbatim>\<open>undefined\<close> inside an array, \<^verbatim>\<open>NaN\<close> and the infinities come back as \<^verbatim>\<open>null\<close>, an undefined member
  of an object and the named properties of an array are lost, every other value comes
  back as it is (a number too, by the choice of its text).  \<open>None\<close>: there is no text
  to parse, and \<^verbatim>\<open>JSON.parse(undefined)\<close> throws.
\<close>

primrec json_copy :: "jsval \<Rightarrow> jsval option" where
  "json_copy JUndefined = None"
| "json_copy JNull = Some JNull"
| "json_copy (JBool b) = Some (JBool b)"
| "json_copy (JNum q) = Some (JNum q)"
| "json_copy JNaN = Some JNull"
| "json_copy (JStr s) = Some (JStr s)"
| "json_copy (JArr xs ps) = Some (JArr (map element_copy (map json_copy xs)) [])"
| "json_copy (JObj kvs) = Some (JObj (member_copies (map (map_prod id json_copy) kvs)))"
| "json_copy (JInf neg) = Some JNull"

text \<open>The values that \<^verbatim>\<open>JSON.parse\<close> produces from the text of a value: no \<^verbatim>\<open>undefined\<close>, no
  \<^verbatim>\<open>NaN\<close> and no infinity in them, no named property on an array, no two members of an
  object under one name.\<close>

primrec is_json :: "jsval \<Rightarrow> bool" where
  "is_json JUndefined = False"
| "is_json JNull = True"
| "is_json (JBool b) = True"
| "is_json (JNum q) = True"
| "is_json JNaN = False"
| "is_json (JStr s) = True"
| "is_json (JArr xs ps) = (list_all id (map is_json xs) \<and> ps = [])"
| "is_json (JObj kvs) =
     (list_all id (map snd (map (map_prod id is_json) kvs)) \<and> distinct (map fst kvs))"
| "is_json (JInf neg) = False"

subsection \<open>Numbers\<close>

text \<open>Powers of two and of ten with an integer exponent.\<close>

definition pow2 :: "int \<Rightarrow> rat" where
  "pow2 k = (if 0 \<le> k then 2 ^ nat k else 1 / 2 ^ nat (- k))"

definition pow10 :: "int \<Rightarrow> rat" where
  "pow10 k = (if 0 \<le> k then 10 ^ nat k else 1 / 10 ^ nat (- k))"

text \<open>The exponent \<open>k\<close> with \<open>2\<^sup>k \<le> a < 2\<^sup>k\<^sup>+\<^sup>1\<close>, for a positive \<open>a\<close>.\<close>

definition log2_floor :: "rat \<Rightarrow> int" where
  "log2_floor a =
     (if 1 \<le> a then int (floorlog 2 (nat \<lfloor>a\<rfloor>)) - 1
      else (let k = - int (floorlog 2 (nat \<lfloor>1 / a\<rfloor>)) in if pow2 (k + 1) \<le> a then k + 1 else k))"

text \<open>The nearest integer, the even one of two that are equally near.\<close>

definition round_half_even :: "rat \<Rightarrow> int" where
  "round_half_even x =
     (let f = \<lfloor>x\<rfloor>; r = x - of_int f
      in if 1 / 2 < r \<or> (r = 1 / 2 \<and> odd f) then f + 1 else f)"

text \<open>
  The binary64 value of a real number (rounding to nearest, ties to even): a multiple of
  \<open>2\<^sup>e\<close> with at most 53 bits, where \<open>e\<close> is not below \<open>-1074\<close> (the subnormal numbers), and
  an infinity from \<open>2\<^sup>1\<^sup>0\<^sup>2\<^sup>4\<close> on.  The result of every arithmetic operation and the value
  of every numeral is rounded this way.
\<close>

definition binary64 :: "rat \<Rightarrow> jsval" where
  "binary64 q =
     (if q = 0 then JNum 0
      else
        (let e = max (log2_floor \<bar>q\<bar> - 52) (- 1074);
             r = of_int (round_half_even (\<bar>q\<bar> / pow2 e)) * pow2 e
         in if pow2 1024 \<le> r then JInf (q < 0) else JNum (if q < 0 then - r else r)))"

text \<open>
  \<^verbatim>\<open>StringToNumber\<close>: white space around the numeral is dropped, the empty string is 0, a
  numeral is hexadecimal, octal or binary after \<^verbatim>\<open>0x\<close>, \<^verbatim>\<open>0o\<close>, \<^verbatim>\<open>0b\<close>, or else decimal with
  an optional sign, fraction and exponent, or \<^verbatim>\<open>Infinity\<close>; any other string is \<^verbatim>\<open>NaN\<close>.
\<close>

definition is_space :: "char \<Rightarrow> bool" where
  "is_space c = ((of_char c :: nat) \<in> {9, 10, 11, 12, 13, 32, 160})"

definition trim :: "string \<Rightarrow> string" where
  "trim s = rev (dropWhile is_space (rev (dropWhile is_space s)))"

definition digit_of :: "char \<Rightarrow> nat option" where
  "digit_of c =
     (let n = (of_char c :: nat) in
      if 48 \<le> n \<and> n \<le> 57 then Some (n - 48)
      else if 97 \<le> n \<and> n \<le> 102 then Some (n - 87)
      else if 65 \<le> n \<and> n \<le> 70 then Some (n - 55)
      else None)"

definition radix_value :: "nat \<Rightarrow> string \<Rightarrow> nat option" where
  "radix_value b s =
     (if s \<noteq> [] \<and> list_all (\<lambda>c. case digit_of c of Some d \<Rightarrow> d < b | None \<Rightarrow> False) s
      then Some (foldl (\<lambda>a c. b * a + the (digit_of c)) 0 s) else None)"

fun radix_literal :: "string \<Rightarrow> nat option" where
  "radix_literal (z # x # s) =
     (if z \<noteq> CHR ''0'' then None
      else if x = CHR ''x'' \<or> x = CHR ''X'' then radix_value 16 s
      else if x = CHR ''o'' \<or> x = CHR ''O'' then radix_value 8 s
      else if x = CHR ''b'' \<or> x = CHR ''B'' then radix_value 2 s
      else None)"
| "radix_literal s = None"

text \<open>An optional sign: whether it is \<^verbatim>\<open>-\<close>, and what follows it.\<close>

fun signed :: "string \<Rightarrow> bool \<times> string" where
  "signed (c # s) =
     (if c = CHR ''-'' then (True, s) else if c = CHR ''+'' then (False, s) else (False, c # s))"
| "signed [] = (False, [])"

definition exponent_part :: "string \<Rightarrow> int option" where
  "exponent_part s =
     (case s of
        [] \<Rightarrow> Some 0
      | c # t \<Rightarrow>
          if c = CHR ''e'' \<or> c = CHR ''E'' then
            (case signed t of (neg, ds) \<Rightarrow>
               if ds \<noteq> [] \<and> list_all is_digit ds
               then Some (if neg then - int (digits_value ds) else int (digits_value ds))
               else None)
          else None)"

definition unsigned_decimal :: "string \<Rightarrow> rat option" where
  "unsigned_decimal s =
     (let ip = takeWhile is_digit s; r1 = dropWhile is_digit s;
          fp = (case r1 of c # t \<Rightarrow> if c = CHR ''.'' then takeWhile is_digit t else [] | [] \<Rightarrow> []);
          r2 = (case r1 of c # t \<Rightarrow> if c = CHR ''.'' then dropWhile is_digit t else r1 | [] \<Rightarrow> [])
      in if ip = [] \<and> fp = [] then None
         else (case exponent_part r2 of
                 None \<Rightarrow> None
               | Some ex \<Rightarrow> Some (of_nat (digits_value (ip @ fp)) * pow10 (ex - int (length fp)))))"

definition string_to_number :: "string \<Rightarrow> jsval" where
  "string_to_number s =
     (let t = trim s in
      if t = [] then JNum 0
      else (case radix_literal t of
              Some n \<Rightarrow> binary64 (of_nat n)
            | None \<Rightarrow>
                (case signed t of (neg, u) \<Rightarrow>
                   if u = ''Infinity'' then JInf neg
                   else (case unsigned_decimal u of
                           None \<Rightarrow> JNaN
                         | Some q \<Rightarrow> binary64 (if neg then - q else q)))))"

text \<open>
  \<^verbatim>\<open>ToString\<close>, as the conversion of an object to a primitive value uses it; \<open>None\<close> is the
  \<^verbatim>\<open>TypeError\<close> of an object that has no primitive value.  An object or array of this
  embedding inherits \<^verbatim>\<open>valueOf\<close> (which returns the object, not a primitive) and \<^verbatim>\<open>toString\<close>
  from its prototype, so that \<^verbatim>\<open>toString\<close> decides: an own property of that name is not a
  function and leaves no method to call; otherwise an object is \<^verbatim>\<open>[object Object]\<close>, and an
  array is the texts of its elements joined by commas (nothing for \<^verbatim>\<open>undefined\<close> and
  \<^verbatim>\<open>null\<close>), or \<^verbatim>\<open>[object Array]\<close> when an own property hides \<^verbatim>\<open>join\<close>.
\<close>

definition joined :: "jsval \<Rightarrow> string option \<Rightarrow> string option" where
  "joined x t = (if x = JUndefined \<or> x = JNull then Some [] else t)"

primrec to_text :: "(rat \<Rightarrow> string) \<Rightarrow> jsval \<Rightarrow> string option" where
  "to_text ns JUndefined = Some ''undefined''"
| "to_text ns JNull = Some ''null''"
| "to_text ns (JBool b) = Some (if b then ''true'' else ''false'')"
| "to_text ns (JNum q) = Some (ns q)"
| "to_text ns JNaN = Some ''NaN''"
| "to_text ns (JStr s) = Some s"
| "to_text ns (JArr xs ps) =
     (if ''toString'' \<in> fst ` set ps then None
      else if ''join'' \<in> fst ` set ps then Some ''[object Array]''
      else map_option join_commas (those (map2 joined xs (map (to_text ns) xs))))"
| "to_text ns (JObj kvs) =
     (if ''toString'' \<in> fst ` set kvs then None else Some ''[object Object]'')"
| "to_text ns (JInf neg) = Some (if neg then ''-Infinity'' else ''Infinity'')"

text \<open>\<^verbatim>\<open>ToNumber\<close>.  A number that is written with a rational that binary64 does not have
  stands for the nearest value, as a numeral of a program does.\<close>

fun js_to_number :: "(rat \<Rightarrow> string) \<Rightarrow> jsval \<Rightarrow> error + jsval" where
  "js_to_number ns JUndefined = Inr JNaN"
| "js_to_number ns JNull = Inr (JNum 0)"
| "js_to_number ns (JBool b) = Inr (JNum (if b then 1 else 0))"
| "js_to_number ns (JNum q) = Inr (binary64 q)"
| "js_to_number ns JNaN = Inr JNaN"
| "js_to_number ns (JInf neg) = Inr (JInf neg)"
| "js_to_number ns (JStr s) = Inr (string_to_number s)"
| "js_to_number ns v = (case to_text ns v of None \<Rightarrow> Inl TypeError | Some s \<Rightarrow> Inr (string_to_number s))"

text \<open>\<^verbatim>\<open>v / 30\<close>: the quotient of two binary64 values, rounded; an infinity stays what it is.\<close>

definition js_div_30 :: "(rat \<Rightarrow> string) \<Rightarrow> jsval \<Rightarrow> error + jsval" where
  "js_div_30 ns v =
     (case js_to_number ns v of
        Inl e \<Rightarrow> Inl e
      | Inr (JNum q) \<Rightarrow> Inr (binary64 (q / 30))
      | Inr (JInf neg) \<Rightarrow> Inr (JInf neg)
      | Inr n \<Rightarrow> Inr JNaN)"

definition and_then :: "error + 'a \<Rightarrow> ('a \<Rightarrow> error + 'b) \<Rightarrow> error + 'b" where
  "and_then m f = (case m of Inl e \<Rightarrow> Inl e | Inr x \<Rightarrow> f x)"

section \<open>The loop optimizer\<close>

text \<open>The answers of \<^verbatim>\<open>_estimateOptimizationPotential\<close> and \<^verbatim>\<open>_analyzeLoop\<close>, and the state of
  a \<^verbatim>\<open>LoopOptimizer\<close> object.\<close>

record potential =
  sizeReductionPotential :: string
  performanceImprovementPotential :: string
  estimatedSizeReduction :: nat

record report =
  frameCount :: jsval
  duration :: jsval
  repetitiveFrames :: "nat list"
  redundantProperties :: "jsval list"
  estimatedOptimizationPotential :: potential

record optimizer =
  config :: "(string \<times> jsval) list"
  isInitialized :: bool

text \<open>\<^verbatim>\<open>constructor(config)\<close>: the two defaults, overwritten by the keys of \<open>cfg\<close>.\<close>

definition constructor :: "jsval \<Rightarrow> optimizer" where
  "constructor cfg =
     \<lparr> config = spread [(''quality'', JNum 8), (''enableCompression'', JBool True)] cfg,
       isInitialized = True \<rparr>"

subsection \<open>Analysis\<close>

text \<open>The loop of \<^verbatim>\<open>_identifyRepetitiveFrames\<close>:
  \<^verbatim>\<open>for (let i = 1; i < frames.length; i++) if (JSON.stringify(frames[i]) === JSON.stringify(frames[i-1])) repetitiveFrames.push(i)\<close>.\<close>

function repetitive_scan :: "(rat \<Rightarrow> string) \<Rightarrow> jsval list \<Rightarrow> nat \<Rightarrow> nat list \<Rightarrow> nat list" where
  "repetitive_scan ns frames i acc =
     (if i < length frames
      then repetitive_scan ns frames (i + 1)
             (if json_stringify ns (frames ! i) = json_stringify ns (frames ! (i - 1))
              then acc @ [i] else acc)
      else acc)"
  by pat_completeness auto
termination
  by (relation "measure (\<lambda>(ns, frames, i, acc). length frames - i)") auto

declare repetitive_scan.simps [simp del]

fun identifyRepetitiveFrames :: "(rat \<Rightarrow> string) \<Rightarrow> jsval \<Rightarrow> nat list" where
  "identifyRepetitiveFrames ns (JArr xs ps) = repetitive_scan ns xs 1 []"
| "identifyRepetitiveFrames ns v = []"

definition identifyRedundantProperties :: "jsval \<Rightarrow> jsval list" where
  "identifyRedundantProperties animationData = []"

text \<open>
  Rounding to binary64, on the numerator of a positive number \<open>n / 2\<^sup>k\<close>: the 53 leading
  bits are kept, the rest is rounded to nearest, ties to even.
\<close>

definition round_53 :: "nat \<Rightarrow> nat" where
  "round_53 n =
     (let d = floorlog 2 n - 53;
          q = n div 2 ^ d;
          r = n mod 2 ^ d
      in (if 2 ^ d < 2 * r \<or> (2 * r = 2 ^ d \<and> odd q) then q + 1 else q) * 2 ^ d)"

text \<open>
  \<^verbatim>\<open>Math.floor(dataSize * 0.3)\<close>.  The literal \<^verbatim>\<open>0.3\<close> is the binary64 value
  \<open>5404319552844595 / 2\<^sup>5\<^sup>4\<close>; the product of the length with it is rounded to binary64,
  then to the integer below.
\<close>

definition floor_times_0_3 :: "nat \<Rightarrow> nat" where
  "floor_times_0_3 dataSize = round_53 (dataSize * 5404319552844595) div 2 ^ 54"

text \<open>\<^verbatim>\<open>_estimateOptimizationPotential\<close>.  Reading \<^verbatim>\<open>length\<close> from \<^verbatim>\<open>undefined\<close> throws.\<close>

definition estimateOptimizationPotential :: "(rat \<Rightarrow> string) \<Rightarrow> jsval \<Rightarrow> error + potential" where
  "estimateOptimizationPotential ns animationData =
     (case json_stringify ns animationData of
        None \<Rightarrow> Inl TypeError
      | Some text \<Rightarrow>
          (let dataSize = length text in
           Inr \<lparr> sizeReductionPotential =
                   (if dataSize > 10000 then ''high'' else if dataSize > 1000 then ''medium'' else ''low''),
                 performanceImprovementPotential = ''medium'',
                 estimatedSizeReduction = floor_times_0_3 dataSize \<rparr>))"

text \<open>
  \<^verbatim>\<open>_analyzeLoop\<close>.  The fields of the result are evaluated in the order in which they are
  written; the quotient is evaluated only when the \<^verbatim>\<open>duration\<close> of the animation is falsy.
\<close>

definition analyzeLoop :: "(rat \<Rightarrow> string) \<Rightarrow> jsval \<Rightarrow> error + report" where
  "analyzeLoop ns animationData =
     (if \<not> truthy animationData \<or> js_typeof animationData \<noteq> ''object''
      then Inl InvalidAnimationData
      else
        (let frames = js_or (js_get animationData ''frames'') (JArr [] []);
             frameCount = js_get frames ''length''
         in and_then
              (if truthy (js_get animationData ''duration'')
               then Inr (js_get animationData ''duration'')
               else js_div_30 ns frameCount)
              (\<lambda>duration.
                 and_then (estimateOptimizationPotential ns animationData) (\<lambda>p.
                   Inr \<lparr> frameCount = frameCount,
                         duration = duration,
                         repetitiveFrames = identifyRepetitiveFrames ns frames,
                         redundantProperties = identifyRedundantProperties animationData,
                         estimatedOptimizationPotential = p \<rparr>))))"

subsection \<open>Local optimizations\<close>

text \<open>\<^verbatim>\<open>_compressRepetitiveFrames\<close>: \<^verbatim>\<open>frames.filter((_, index) => !repetitiveIndices.includes(index))\<close>
  builds a new array.\<close>

fun compressRepetitiveFrames :: "jsval \<Rightarrow> nat list \<Rightarrow> jsval" where
  "compressRepetitiveFrames (JArr xs ps) repetitiveIndices =
     (if length xs = 0 \<or> length repetitiveIndices = 0 then JArr xs ps
      else JArr (map (\<lambda>index. xs ! index)
                   (filter (\<lambda>index. index \<notin> set repetitiveIndices) [0..<length xs])) [])"
| "compressRepetitiveFrames frames repetitiveIndices = frames"

text \<open>Reading a property throws on \<^verbatim>\<open>undefined\<close> and \<^verbatim>\<open>null\<close>.\<close>

definition js_read :: "jsval \<Rightarrow> string \<Rightarrow> error + jsval" where
  "js_read v k = (if v = JUndefined \<or> v = JNull then Inl TypeError else Inr (js_get v k))"

text \<open>The first statement group of \<^verbatim>\<open>_performLocalOptimizations\<close>, after the copy:
  \<^verbatim>\<open>if (analysis.repetitiveFrames.length > 0 && options.enableCompression) optimized.frames = ...\<close>.\<close>

definition apply_compression :: "jsval \<Rightarrow> report \<Rightarrow> jsval \<Rightarrow> error + jsval" where
  "apply_compression optimized analysis options =
     (if length (repetitiveFrames analysis) > 0
      then and_then (js_read options ''enableCompression'') (\<lambda>enabled.
             if truthy enabled
             then and_then (js_read optimized ''frames'') (\<lambda>frames.
                    js_set optimized ''frames''
                      (compressRepetitiveFrames (js_or frames (JArr [] [])) (repetitiveFrames analysis)))
             else Inr optimized)
      else Inr optimized)"

text \<open>The second group: the metadata object is taken or created, hung on the copy, and
  gets its three entries.  \<open>now\<close> is \<^verbatim>\<open>new Date().toISOString()\<close>.\<close>

definition add_metadata :: "string \<Rightarrow> jsval \<Rightarrow> jsval \<Rightarrow> error + jsval" where
  "add_metadata now optimized options =
     and_then (js_read optimized ''metadata'') (\<lambda>m.
     let metadata = js_or m (JObj []) in
     and_then (js_set optimized ''metadata'' metadata) (\<lambda>optimized1.
     and_then (js_set metadata ''optimized'' (JBool True)) (\<lambda>metadata1.
     and_then (js_set metadata1 ''optimizationDate'' (JStr now)) (\<lambda>metadata2.
     and_then (js_set metadata2 ''optimizationOptions'' options) (\<lambda>metadata3.
     js_set optimized1 ''metadata'' metadata3)))))"

text \<open>\<^verbatim>\<open>_performLocalOptimizations\<close>.\<close>

definition performLocalOptimizations :: "string \<Rightarrow> jsval \<Rightarrow> report \<Rightarrow> jsval \<Rightarrow> error + jsval" where
  "performLocalOptimizations now animationData analysis options =
     (case json_copy animationData of
        None \<Rightarrow> Inl SyntaxError
      | Some optimized \<Rightarrow>
          and_then (apply_compression optimized analysis options) (\<lambda>optimized1.
            add_metadata now optimized1 options))"

subsection \<open>The public operation\<close>

text \<open>\<^verbatim>\<open>{...this.config, ...options}\<close>, with the default \<^verbatim>\<open>{}\<close> of the parameter \<^verbatim>\<open>options\<close>
  when the argument is missing.\<close>


definition merged_options :: "optimizer \<Rightarrow> jsval \<Rightarrow> jsval" where
  "merged_options this options =
     JObj (spread (spread [] (JObj (config this))) (if options = JUndefined then JObj [] else options))"

text \<open>
  \<^verbatim>\<open>optimizeLoop(animationData, options = {})\<close>.  The promise that the method returns is
  its result: \<open>Inl\<close> when it is rejected, \<open>Inr\<close> the value it resolves to.  \<open>now\<close> and \<open>later\<close>
  are the two readings of the clock, \<open>random\<close> is \<^verbatim>\<open>Math.random()\<close>.
\<close>

definition optimizeLoop ::
  "(rat \<Rightarrow> string) \<Rightarrow> string \<Rightarrow> rat \<Rightarrow> string \<Rightarrow> optimizer \<Rightarrow> jsval \<Rightarrow> jsval \<Rightarrow> error + jsval" where
  "optimizeLoop ns now random later this animationData options =
     (if \<not> isInitialized this then Inl NotInitialized
      else
        (let optimizationOptions = merged_options this options
         in and_then (analyzeLoop ns animationData) (\<lambda>analysis.
            and_then (performLocalOptimizations now animationData analysis optimizationOptions)
              (\<lambda>locallyOptimized.
                Inr (JObj
                  (obj_put
                    (obj_put
                      (obj_put
                        (obj_put (spread [] locallyOptimized) ''optimized'' (JBool True))
                        ''optimizationLevel'' (js_get optimizationOptions ''quality''))
                      ''sizeReduction''
                        (JStr (nat_to_string (nat \<lfloor>random * 30\<rfloor> + 10) @ ''%'')))
                    ''timestamp'' (JStr later)))))))"

section \<open>The optimizer on a store of objects\<close>






























section \<open>Notions of the specification\<close>

text \<open>
  Three notions that the specification uses and the code does not have, written down after
  the words of the specification to compare the code with them.

  A structured record is an object with named fields, as opposed to a sequence and to a
  value that has no parts.
\<close>

fun structured_record :: "jsval \<Rightarrow> bool" where
  "structured_record (JObj kvs) = True"
| "structured_record v = False"

text \<open>
  Two values are deep-equal when they have the same content: the same primitive value, or
  sequences of the same length with deep-equal elements, or records with the same field
  names and deep-equal values under each name, in whatever order the fields are written.
\<close>

definition same_members :: "(string \<times> (jsval \<Rightarrow> bool)) list \<Rightarrow> (string \<times> jsval) list \<Rightarrow> bool" where
  "same_members ps kvs =
     (set (map fst ps) = set (map fst kvs)
      \<and> list_all (\<lambda>(k, p). case map_of kvs k of Some v \<Rightarrow> p v | None \<Rightarrow> False) ps)"

primrec deep_equal :: "jsval \<Rightarrow> jsval \<Rightarrow> bool" where
  "deep_equal JUndefined w = (w = JUndefined)"
| "deep_equal JNull w = (w = JNull)"
| "deep_equal (JBool b) w = (w = JBool b)"
| "deep_equal (JNum q) w = (w = JNum q)"
| "deep_equal JNaN w = (w = JNaN)"
| "deep_equal (JStr s) w = (w = JStr s)"
| "deep_equal (JArr xs ps) w =
     (case w of
        JArr ys qs \<Rightarrow>
          length xs = length ys
          \<and> list_all (\<lambda>(p, y). p y) (zip (map deep_equal xs) ys)
          \<and> same_members (map (map_prod id deep_equal) ps) qs
      | _ \<Rightarrow> False)"
| "deep_equal (JObj kvs) w =
     (case w of
        JObj kvs' \<Rightarrow> same_members (map (map_prod id deep_equal) kvs) kvs'
      | _ \<Rightarrow> False)"
| "deep_equal (JInf neg) w = (w = JInf neg)"

text \<open>The size of a text in bytes, as it is sent (UTF-8): a code unit below 128 is one
  byte, one from 128 to 255 is two.\<close>

definition size_in_bytes :: "string \<Rightarrow> nat" where
  "size_in_bytes s = sum_list (map (\<lambda>c. if (of_char c :: nat) < 128 then 1 else 2) s)"

section \<open>Data to run the definitions on\<close>

text \<open>\<^verbatim>\<open>Number::toString\<close> on the integers of magnitude below \<open>10\<^sup>2\<^sup>1\<close>, to run the
  definitions on data whose numbers are integers.\<close>

definition integer_text :: "rat \<Rightarrow> string" where
  "integer_text q = (if q < 0 then ''-'' else []) @ nat_to_string (nat \<bar>\<lfloor>q\<rfloor>\<bar>)"

section \<open>Properties\<close>

lemma digit_chars:
  "digit_char 0 = CHR ''0''" "digit_char 1 = CHR ''1''" "digit_char 2 = CHR ''2''"
  "digit_char 3 = CHR ''3''" "digit_char 4 = CHR ''4''" "digit_char 5 = CHR ''5''"
  "digit_char 6 = CHR ''6''" "digit_char 7 = CHR ''7''" "digit_char 8 = CHR ''8''"
  "digit_char 9 = CHR ''9''" "digit_char (Suc 0) = CHR ''1''"
  unfolding digit_char_def by code_simp+

lemma repetitive_scan_filter:
  "repetitive_scan ns frames i acc =
     acc @ filter (\<lambda>j. json_stringify ns (frames ! j) = json_stringify ns (frames ! (j - 1))) [i..<length frames]"
proof (induction ns frames i acc rule: repetitive_scan.induct)
  case (1 ns frames i acc)
  show ?case
  proof (cases "i < length frames")
    case True
    then have up: "[i..<length frames] = i # [i + 1..<length frames]"
      by (simp add: upt_conv_Cons)
    show ?thesis
      using True 1 by (subst repetitive_scan.simps) (simp add: up)
  next
    case False
    then show ?thesis
      by (subst repetitive_scan.simps) simp
  qed
qed

lemma identify_filter:
  "identifyRepetitiveFrames ns (JArr frames ps) =
     filter (\<lambda>i. json_stringify ns (frames ! i) = json_stringify ns (frames ! (i - 1))) [1..<length frames]"
  by (simp add: repetitive_scan_filter)

lemma identify_length_le:
  "length (identifyRepetitiveFrames ns (JArr frames ps)) \<le> length frames - 1"
proof -
  have "length (identifyRepetitiveFrames ns (JArr frames ps)) \<le> length [1..<length frames]"
    unfolding identify_filter by (rule length_filter_le)
  then show ?thesis by simp
qed

lemma identify_sorted: "sorted_wrt (<) (identifyRepetitiveFrames ns (JArr frames ps))"
  unfolding identify_filter by (rule sorted_wrt_filter) (simp add: sorted_wrt_upt)

lemma identify_all_equal:
  assumes "length (identifyRepetitiveFrames ns (JArr frames ps)) = length frames - 1"
    and "i < length frames"
  shows "json_stringify ns (frames ! i) = json_stringify ns (frames ! 0)"
proof -
  let ?P = "\<lambda>i. json_stringify ns (frames ! i) = json_stringify ns (frames ! (i - 1))"
  have "length (filter ?P [1..<length frames]) = length [1..<length frames]"
    using assms(1) unfolding identify_filter by simp
  then have all: "\<forall>j \<in> set [1..<length frames]. ?P j"
    using length_filter_less [of _ "[1..<length frames]" ?P] by fastforce
  show ?thesis
    using assms(2)
  proof (induction i)
    case 0
    show ?case by simp
  next
    case (Suc i)
    from all Suc.prems have "?P (Suc i)" by simp
    with Suc show ?case by simp
  qed
qed


lemma object_cases:
  assumes "truthy a" and "js_typeof a = ''object''"
  obtains (arr) xs ps where "a = JArr xs ps" | (obj) kvs where "a = JObj kvs"
  using assms by (cases a) auto

lemma estimate_Inr:
  assumes "truthy a" and "js_typeof a = ''object''"
  shows "\<exists>text. json_stringify ns a = Some text \<and>
     estimateOptimizationPotential ns a =
       Inr \<lparr> sizeReductionPotential =
               (if length text > 10000 then ''high'' else if length text > 1000 then ''medium'' else ''low''),
             performanceImprovementPotential = ''medium'',
             estimatedSizeReduction = floor_times_0_3 (length text) \<rparr>"
  using assms by (cases a rule: object_cases) (simp_all add: estimateOptimizationPotential_def)

lemma round_half_even_int: "round_half_even (of_int z) = z"
  by (simp add: round_half_even_def)

lemma log2_floor_nat: "0 < n \<Longrightarrow> log2_floor (of_nat n) = int (floorlog 2 n) - 1"
  by (simp add: log2_floor_def)

lemma floorlog_le_53: "n < 2 ^ 53 \<Longrightarrow> floorlog 2 n \<le> 53"
  by (rule floorlog_leI) simp_all

text \<open>The natural numbers below \<open>2\<^sup>5\<^sup>3\<close> are binary64 values.\<close>

lemma binary64_nat:
  assumes "n < 2 ^ 53"
  shows "binary64 (of_nat n) = JNum (of_nat n)"
proof (cases "n = 0")
  case True
  then show ?thesis by (simp add: binary64_def)
next
  case False
  define L where "L = floorlog 2 n"
  have L: "1 \<le> L" "L \<le> 53"
    using False floorlog_le_53 [OF assms] by (auto simp add: L_def floorlog_def)
  have e: "max (log2_floor \<bar>of_nat n\<bar> - 52) (- 1074) = - int (53 - L)"
    using False L by (simp add: log2_floor_nat L_def)
  have p: "pow2 (- int (53 - L)) = 1 / 2 ^ (53 - L)"
  proof -
    have "nat (int (53 - L)) = 53 - L" by simp
    then show ?thesis by (simp add: pow2_def del: of_nat_diff)
  qed
  have "(of_nat n :: rat) / pow2 (- int (53 - L)) = of_int (int (n * 2 ^ (53 - L)))"
    by (simp add: p)
  then have r: "of_int (round_half_even (\<bar>of_nat n\<bar> / pow2 (- int (53 - L)))) * pow2 (- int (53 - L)) = (of_nat n :: rat)"
    by (simp only: abs_of_nat round_half_even_int) (simp add: p)
  have "(of_nat n :: rat) < 2 ^ 1024"
  proof -
    have "(of_nat n :: rat) < of_nat (2 ^ 53)" using assms by (simp only: of_nat_less_iff)
    also have "\<dots> \<le> 2 ^ 1024" by simp
    finally show ?thesis .
  qed
  then have big: "\<not> pow2 1024 \<le> (of_nat n :: rat)"
    by (simp add: pow2_def)
  show ?thesis
    unfolding binary64_def Let_def e r using False big by simp
qed

lemma pow2_pos: "0 < pow2 k"
  by (simp add: pow2_def)

lemma pow2_Suc: "pow2 (k + 1) = 2 * pow2 k"
proof -
  consider "0 \<le> k" | "k = - 1" | "k < - 1" by linarith
  then show ?thesis
  proof cases
    case 1
    then have "nat (k + 1) = Suc (nat k)" by simp
    with 1 show ?thesis by (simp add: pow2_def)
  next
    case 2
    then show ?thesis by (simp add: pow2_def)
  next
    case 3
    then have "nat (- k) = Suc (nat (- (k + 1)))" by simp
    with 3 show ?thesis by (simp add: pow2_def)
  qed
qed

lemma pow2_add_nat: "pow2 (k + int n) = pow2 k * 2 ^ n"
proof (induction n)
  case 0
  then show ?case by simp
next
  case (Suc n)
  have "k + int (Suc n) = (k + int n) + 1" by simp
  then have "pow2 (k + int (Suc n)) = pow2 ((k + int n) + 1)" by (simp only:)
  also have "\<dots> = 2 * pow2 (k + int n)" by (rule pow2_Suc)
  finally show ?case using Suc by simp
qed

lemma pow2_mono: "k \<le> l \<Longrightarrow> pow2 k \<le> pow2 l"
proof -
  assume "k \<le> l"
  then have "l = k + int (nat (l - k))" by simp
  then have "pow2 l = pow2 k * 2 ^ nat (l - k)"
    using pow2_add_nat [of k "nat (l - k)"] by simp
  moreover have "(1::rat) \<le> 2 ^ nat (l - k)" by simp
  ultimately show ?thesis
    using pow2_pos [of k] by (simp add: mult_le_cancel_left1)
qed

lemma pow2_nat: "pow2 (int n) = 2 ^ n"
  by (simp add: pow2_def)

lemma pow2_neg: "pow2 (- int n) = 1 / 2 ^ n"
  by (cases n) (simp_all add: pow2_def nat_add_distrib)

lemma log2_floor_bounds:
  assumes "0 < a"
  shows "pow2 (log2_floor a) \<le> a \<and> a < pow2 (log2_floor a + 1)"
proof (cases "1 \<le> a")
  case True
  define n where "n = nat \<lfloor>a\<rfloor>"
  define L where "L = floorlog 2 n"
  have n: "0 < n" "of_nat n \<le> a" "a < of_nat (n + 1)"
    using True by (simp_all add: n_def) linarith+
  from floorlog_bounds [OF n(1), of 2] have b: "2 ^ (L - 1) \<le> n" "n < 2 ^ L"
    by (simp_all add: L_def)
  have L: "0 < L" using n(1) by (simp add: L_def floorlog_def)
  have lf: "log2_floor a = int (L - 1)"
    using True L by (simp add: log2_floor_def n_def L_def)
  have "(2::rat) ^ (L - 1) \<le> of_nat n"
    using b(1) by (metis of_nat_le_iff of_nat_numeral of_nat_power)
  then have lo: "pow2 (int (L - 1)) \<le> a"
    using n(2) by (simp only: pow2_nat)
  have "n + 1 \<le> 2 ^ L" using b(2) by simp
  then have "(of_nat (n + 1) :: rat) \<le> 2 ^ L"
    by (metis of_nat_le_iff of_nat_numeral of_nat_power)
  then have "a < 2 ^ L" using n(3) by simp
  moreover have "int (L - 1) + 1 = int L" using L by simp
  ultimately have hi: "a < pow2 (int (L - 1) + 1)"
    by (simp only: pow2_nat)
  show ?thesis unfolding lf using lo hi by simp
next
  case False
  define b where "b = 1 / a"
  define n where "n = nat \<lfloor>b\<rfloor>"
  define L where "L = floorlog 2 n"
  have b1: "1 < b" using False assms by (simp add: b_def)
  have n: "0 < n" "of_nat n \<le> b" "b < of_nat (n + 1)"
    using b1 by (simp_all add: n_def) linarith+
  from floorlog_bounds [OF n(1), of 2] have bb: "2 ^ (L - 1) \<le> n" "n < 2 ^ L"
    by (simp_all add: L_def)
  have L: "0 < L" using n(1) by (simp add: L_def floorlog_def)
  have "(2::rat) ^ (L - 1) \<le> of_nat n"
    using bb(1) by (metis of_nat_le_iff of_nat_numeral of_nat_power)
  then have lo': "2 ^ (L - 1) \<le> b" using n(2) by (rule order_trans)
  have "n + 1 \<le> 2 ^ L" using bb(2) by simp
  then have "(of_nat (n + 1) :: rat) \<le> 2 ^ L"
    by (metis of_nat_le_iff of_nat_numeral of_nat_power)
  then have hi': "b < 2 ^ L" using n(3) by simp
  have a: "a = 1 / b" using assms by (simp add: b_def)
  have lower: "pow2 (- int L) < a"
    unfolding pow2_neg a using hi' b1 by (simp add: field_simps)
  have upper: "a \<le> pow2 (- int L + 1)"
  proof -
    have "- int L + 1 = - int (L - 1)" using L by simp
    then have "pow2 (- int L + 1) = 1 / 2 ^ (L - 1)" by (simp only: pow2_neg)
    moreover have "1 / b \<le> 1 / 2 ^ (L - 1)"
      using lo' b1 by (intro divide_left_mono) simp_all
    ultimately show ?thesis by (simp add: a)
  qed
  have lf: "log2_floor a = (if pow2 (- int L + 1) \<le> a then - int L + 1 else - int L)"
    using False by (simp add: log2_floor_def Let_def b_def n_def L_def)
  show ?thesis
  proof (cases "pow2 (- int L + 1) \<le> a")
    case True
    have "a < pow2 (- int L + 1 + 1)"
      using upper pow2_Suc [of "- int L + 1"] pow2_pos [of "- int L + 1"] by simp
    with True lf show ?thesis by simp
  next
    case False
    with lf lower show ?thesis by simp
  qed
qed

lemma log2_floor_unique:
  assumes "pow2 k \<le> a" and "a < pow2 (k + 1)"
  shows "log2_floor a = k"
proof -
  have pos: "0 < a" using assms(1) pow2_pos [of k] by simp
  note b = log2_floor_bounds [OF pos]
  have "\<not> log2_floor a < k"
  proof
    assume "log2_floor a < k"
    then have "pow2 (log2_floor a + 1) \<le> pow2 k" by (intro pow2_mono) simp
    with b assms(1) show False by simp
  qed
  moreover have "\<not> k < log2_floor a"
  proof
    assume "k < log2_floor a"
    then have "pow2 (k + 1) \<le> pow2 (log2_floor a)" by (intro pow2_mono) simp
    with b assms(2) show False by simp
  qed
  ultimately show ?thesis by simp
qed

lemma binary64_normal:
  assumes "pow2 k \<le> q" and "q < pow2 (k + 1)" and "- 1022 \<le> k"
  shows "binary64 q =
     (let r = of_int (round_half_even (q / pow2 (k - 52))) * pow2 (k - 52)
      in if pow2 1024 \<le> r then JInf False else JNum r)"
proof -
  have pos: "0 < q" using assms(1) pow2_pos [of k] by simp
  have "log2_floor \<bar>q\<bar> = k"
    using log2_floor_unique [OF assms(1,2)] pos by simp
  then show ?thesis
    using pos assms(3) by (simp add: binary64_def Let_def)
qed

lemma floor_rat_numeral: "\<lfloor>(numeral a / numeral b :: rat)\<rfloor> = numeral a div numeral b"
  using floor_divide_of_int_eq [of "numeral a" "numeral b", where ?'a = rat] by simp

lemma binary64_tenth: "binary64 (1 / 10) = JNum (3602879701896397 / 36028797018963968)"
  by (subst binary64_normal [of "- 4"]) (simp_all add: pow2_def round_half_even_def Let_def floor_rat_numeral)

lemma js_div_30_nat:
  "n < 2 ^ 53 \<Longrightarrow> js_div_30 ns (JNum (of_nat n)) = Inr (binary64 (of_nat n / 30))"
  by (simp add: js_div_30_def binary64_nat)

lemma js_div_30_number: "\<exists>d. js_div_30 ns (JNum q) = Inr d"
  by (cases "binary64 q") (simp_all add: js_div_30_def)

lemma js_div_30_Inl:
  assumes "js_div_30 ns v = Inl e"
  shows "e = TypeError" and "to_text ns v = None" and "isArray v \<or> (\<exists>kvs. v = JObj kvs)"
proof -
  have n: "js_to_number ns v = Inl e"
    using assms by (auto simp add: js_div_30_def split: sum.splits jsval.splits)
  then show "e = TypeError" and "to_text ns v = None" and "isArray v \<or> (\<exists>kvs. v = JObj kvs)"
    by (cases v; auto split: option.splits if_splits)+
qed

lemma analyzeLoop_returns:
  assumes "truthy a" and "js_typeof a = ''object''"
    and "truthy (js_get a ''duration'')
         \<or> (\<exists>d. js_div_30 ns (js_get (js_or (js_get a ''frames'') (JArr [] [])) ''length'') = Inr d)"
  shows "\<exists>r. analyzeLoop ns a = Inr r"
proof -
  from estimate_Inr [OF assms(1,2)] obtain p where p: "estimateOptimizationPotential ns a = Inr p"
    by blast
  have "\<exists>d. (if truthy (js_get a ''duration'') then Inr (js_get a ''duration'')
              else js_div_30 ns (js_get (js_or (js_get a ''frames'') (JArr [] [])) ''length'')) = Inr d"
    using assms(3) by auto
  then show ?thesis
    using assms(1,2) p by (auto simp add: analyzeLoop_def Let_def and_then_def)
qed

lemma analyzeLoop_Inr:
  assumes "truthy a" and "js_typeof a = ''object''"
    and "truthy (js_get a ''duration'') \<or> \<not> truthy (js_get a ''frames'') \<or> isArray (js_get a ''frames'')"
  shows "\<exists>r. analyzeLoop ns a = Inr r"
proof (cases "truthy (js_get a ''duration'')")
  case True
  then show ?thesis using analyzeLoop_returns [OF assms(1,2)] by blast
next
  case False
  with assms(3) have "\<exists>q. js_get (js_or (js_get a ''frames'') (JArr [] [])) ''length'' = JNum q"
    by (cases "js_get a ''frames''") (auto simp add: js_or_def)
  then show ?thesis
    using analyzeLoop_returns [OF assms(1,2), of ns] js_div_30_number by metis
qed

lemma duration_outcome:
  assumes "truthy a" and "js_typeof a = ''object''"
  shows "map_sum id duration (analyzeLoop ns a) =
     (if truthy (js_get a ''duration'') then Inr (js_get a ''duration'')
      else js_div_30 ns (js_get (js_or (js_get a ''frames'') (JArr [] [])) ''length''))"
proof -
  from estimate_Inr [OF assms] obtain p where p: "estimateOptimizationPotential ns a = Inr p"
    by blast
  show ?thesis
    using assms p by (auto simp add: analyzeLoop_def Let_def and_then_def split: sum.splits)
qed

lemma analyzeLoop_InrD:
  assumes "analyzeLoop ns a = Inr r"
  shows "truthy a" and "js_typeof a = ''object''"
    and "frameCount r = js_get (js_or (js_get a ''frames'') (JArr [] [])) ''length''"
    and "(if truthy (js_get a ''duration'') then Inr (js_get a ''duration'')
          else js_div_30 ns (frameCount r)) = Inr (duration r)"
    and "repetitiveFrames r = identifyRepetitiveFrames ns (js_or (js_get a ''frames'') (JArr [] []))"
    and "estimateOptimizationPotential ns a = Inr (estimatedOptimizationPotential r)"
  using assms
  by (auto simp add: analyzeLoop_def Let_def and_then_def split: if_splits sum.splits)

lemma identify_replicate:
  "identifyRepetitiveFrames ns (JArr (replicate n A) ps) = [1..<n]"
proof -
  have "filter (\<lambda>i. json_stringify ns (replicate n A ! i) = json_stringify ns (replicate n A ! (i - 1)))
          [1..<n] = [1..<n]"
    by (rule filter_True) auto
  then show ?thesis
    unfolding identify_filter by simp
qed

lemma identify_run:
  assumes "frames = pre @ replicate n A @ post" and "length pre < i" and "i < length pre + n"
  shows "i \<in> set (identifyRepetitiveFrames ns (JArr frames ps))"
proof -
  have a: "frames ! i = A"
  proof -
    have "i - length pre < n" using assms by arith
    then show ?thesis using assms by (simp add: nth_append)
  qed
  have b: "frames ! (i - 1) = A"
  proof -
    have "i - 1 - length pre < n" "\<not> i - 1 < length pre" using assms by arith+
    then show ?thesis using assms(1) by (simp add: nth_append)
  qed
  have "i < length frames"
    using assms by simp
  then show ?thesis
    unfolding identify_filter using assms(2) a b by simp
qed

lemma identify_AAAB:
  assumes "json_stringify ns A \<noteq> json_stringify ns B"
  shows "identifyRepetitiveFrames ns (JArr [A, A, A, B] ps) = [1, 2]"
proof -
  have "[1..<4] = [1, 2, 3::nat]"
    by (simp add: upt_rec)
  then show ?thesis
    unfolding identify_filter using assms by (simp add: numeral_3_eq_3 numeral_2_eq_2 eq_commute)
qed

text \<open>
  C1, as stated, fails where content and JSON text part: two frames with the same fields
  in another order are deep-equal and are not flagged, and \<^verbatim>\<open>null\<close> after \<^verbatim>\<open>NaN\<close> is flagged
  though the two differ.
\<close>

theorem repetitiveFrames_member_order_counterexample:
  "deep_equal (JObj [(''a'', JNum 1), (''b'', JNum 2)]) (JObj [(''b'', JNum 2), (''a'', JNum 1)])
   \<and> identifyRepetitiveFrames integer_text
        (JArr [JObj [(''a'', JNum 1), (''b'', JNum 2)], JObj [(''b'', JNum 2), (''a'', JNum 1)]] []) = []
   \<and> \<not> deep_equal JNull JNaN
   \<and> identifyRepetitiveFrames integer_text (JArr [JNaN, JNull] []) = [1]"
proof -
  have 1: "deep_equal (JObj [(''a'', JNum 1), (''b'', JNum 2)]) (JObj [(''b'', JNum 2), (''a'', JNum 1)])"
    by (simp add: same_members_def insert_commute)
  have 2: "identifyRepetitiveFrames integer_text
        (JArr [JObj [(''a'', JNum 1), (''b'', JNum 2)], JObj [(''b'', JNum 2), (''a'', JNum 1)]] []) = []"
    unfolding identify_filter
    by (simp add: upt_rec quote_json_def quote_char_def integer_text_def digit_chars)
  have 3: "\<not> deep_equal JNull JNaN"
    by simp
  have 4: "identifyRepetitiveFrames integer_text (JArr [JNaN, JNull] []) = [1]"
    unfolding identify_filter by (simp add: upt_rec)
  from 1 2 3 4 show ?thesis
    by (intro conjI)
qed

text \<open>
  C1, amended.  The indices that \<^verbatim>\<open>_identifyRepetitiveFrames\<close> returns for an array of frames
  are exactly the indices \<open>i\<close> from 1 to the last whose frame has the same JSON text
  (\<^verbatim>\<open>JSON.stringify\<close>) as frame \<open>i - 1\<close>, in strictly increasing order.  Inside a run of \<open>n\<close>
  equal frames every member but the first is flagged; \<open>n\<close> equal frames alone give the
  \<open>n - 1\<close> indices \<open>1, ..., n - 1\<close>; the frames \<open>A, A, A, B\<close>, where \<open>A\<close> and \<open>B\<close> differ in their
  text, give \<open>1, 2\<close>.  The analysis of an animation whose \<^verbatim>\<open>frames\<close> is an array reports this
  list.
\<close>

theorem repetitiveFrames_consecutive_duplicates:
  "identifyRepetitiveFrames ns (JArr frames ps) =
      filter (\<lambda>i. json_stringify ns (frames ! i) = json_stringify ns (frames ! (i - 1)))
        [1..<length frames]
   \<and> sorted_wrt (<) (identifyRepetitiveFrames ns (JArr frames ps))
   \<and> (frames = pre @ replicate n A @ post \<longrightarrow>
        (\<forall>i. length pre < i \<and> i < length pre + n \<longrightarrow>
           i \<in> set (identifyRepetitiveFrames ns (JArr frames ps))))
   \<and> identifyRepetitiveFrames ns (JArr (replicate n A) ps) = [1..<n]
   \<and> (json_stringify ns A \<noteq> json_stringify ns B \<longrightarrow>
        identifyRepetitiveFrames ns (JArr [A, A, A, B] ps) = [1, 2])
   \<and> (analyzeLoop ns animationData = Inr analysis \<and>
        js_get animationData ''frames'' = JArr frames ps \<longrightarrow>
        repetitiveFrames analysis = identifyRepetitiveFrames ns (JArr frames ps))"
proof -
  have "repetitiveFrames analysis = identifyRepetitiveFrames ns (JArr frames ps)"
    if "analyzeLoop ns animationData = Inr analysis" "js_get animationData ''frames'' = JArr frames ps"
    using analyzeLoop_InrD(5) [OF that(1)] that(2) by (simp add: js_or_def)
  then show ?thesis
    using identify_filter [of ns frames ps] identify_sorted [of ns frames ps]
      identify_run [of frames pre n A post _ ns ps] identify_replicate [of ns n A ps]
      identify_AAAB [of ns A B ps]
    by blast
qed


theorem repetitiveFrames_consecutive_duplicates_witness:
  "json_stringify integer_text (JStr ''a'') \<noteq> json_stringify integer_text (JStr ''b'')
   \<and> identifyRepetitiveFrames integer_text (JArr [JStr ''a'', JStr ''a'', JStr ''a'', JStr ''b''] []) = [1, 2]
   \<and> (\<exists>analysis. analyzeLoop integer_text
          (JObj [(''frames'', JArr [JStr ''a'', JStr ''a'', JStr ''a'', JStr ''b''] [])]) = Inr analysis
        \<and> repetitiveFrames analysis = [1, 2])"
proof -
  let ?fs = "[JStr ''a'', JStr ''a'', JStr ''a'', JStr ''b'']"
  let ?X = "JObj [(''frames'', JArr ?fs [])]"
  have ne: "json_stringify integer_text (JStr ''a'') \<noteq> json_stringify integer_text (JStr ''b'')"
    by (simp add: quote_json_def quote_char_def)
  obtain r where r: "analyzeLoop integer_text ?X = Inr r"
    using analyzeLoop_Inr [of ?X integer_text] by auto
  have g: "js_get ?X ''frames'' = JArr ?fs []"
    by simp
  note t = repetitiveFrames_consecutive_duplicates [of integer_text ?fs "[]" "[]" 0 "JStr ''a''" "[]" "JStr ''b''" ?X r]
  from t ne have "identifyRepetitiveFrames integer_text (JArr ?fs []) = [1, 2]"
    by blast
  moreover from t r g have "repetitiveFrames r = identifyRepetitiveFrames integer_text (JArr ?fs [])"
    by blast
  ultimately show ?thesis
    using ne r by simp
qed

text \<open>C3, as stated, fails on the empty sequence of frames: no index is flagged, and 0 is not
  below the length 0.\<close>

theorem repetitiveFrames_count_empty_counterexample:
  "\<not> length (identifyRepetitiveFrames integer_text (JArr [] [])) < length ([] :: jsval list)"
  by simp

lemma identify_same_texts:
  assumes "\<forall>i < length frames. json_stringify ns (frames ! i) = json_stringify ns (frames ! 0)"
  shows "length (identifyRepetitiveFrames ns (JArr frames ps)) = length frames - 1"
proof -
  have "filter (\<lambda>i. json_stringify ns (frames ! i) = json_stringify ns (frames ! (i - 1))) [1..<length frames]
        = [1..<length frames]"
    using assms by (auto simp add: filter_id_conv)
  then show ?thesis
    unfolding identify_filter by simp
qed

text \<open>
  C3, amended.  For a sequence of \<open>n\<close> frames that is not empty, fewer than \<open>n\<close> indices are
  flagged, that is at most \<open>n - 1\<close>, and \<open>n - 1\<close> exactly when all frames have the same JSON
  text; for the empty sequence none is flagged, and none when \<open>n\<close> is 1.
\<close>

theorem repetitiveFrames_count_bound:
  "(frames \<noteq> [] \<longrightarrow> length (identifyRepetitiveFrames ns (JArr frames ps)) < length frames)
   \<and> (frames \<noteq> [] \<longrightarrow>
        int (length (identifyRepetitiveFrames ns (JArr frames ps))) \<le> int (length frames) - 1)
   \<and> (frames = [] \<longrightarrow> identifyRepetitiveFrames ns (JArr frames ps) = [])
   \<and> (length frames \<le> 1 \<longrightarrow> identifyRepetitiveFrames ns (JArr frames ps) = [])
   \<and> (frames \<noteq> [] \<longrightarrow>
        (int (length (identifyRepetitiveFrames ns (JArr frames ps))) = int (length frames) - 1
         \<longleftrightarrow> (\<forall>i < length frames. json_stringify ns (frames ! i) = json_stringify ns (frames ! 0))))"
proof -
  let ?r = "identifyRepetitiveFrames ns (JArr frames ps)"
  have le: "length ?r \<le> length frames - 1"
    by (rule identify_length_le)
  have lt: "length ?r < length frames" if "frames \<noteq> []"
  proof -
    from that have "0 < length frames" by simp
    with le show ?thesis by arith
  qed
  have li: "int (length ?r) \<le> int (length frames) - 1" if "frames \<noteq> []"
    using lt [OF that] by simp
  have nil: "?r = []" if "length frames \<le> 1"
  proof -
    from that le have "length ?r = 0" by arith
    then show ?thesis by (simp only: length_0_conv)
  qed
  have nil0: "?r = []" if "frames = []"
    using nil that by simp
  have eq: "int (length ?r) = int (length frames) - 1
         \<longleftrightarrow> (\<forall>i < length frames. json_stringify ns (frames ! i) = json_stringify ns (frames ! 0))"
    if ne: "frames \<noteq> []"
  proof
    assume "int (length ?r) = int (length frames) - 1"
    then have "length ?r = length frames - 1" using ne by (cases frames) simp_all
    then show "\<forall>i < length frames. json_stringify ns (frames ! i) = json_stringify ns (frames ! 0)"
      using identify_all_equal [of ns frames ps] by blast
  next
    assume "\<forall>i < length frames. json_stringify ns (frames ! i) = json_stringify ns (frames ! 0)"
    from identify_same_texts [OF this, of ps] show "int (length ?r) = int (length frames) - 1"
      using ne by (cases frames) simp_all
  qed
  show ?thesis
    using lt li nil nil0 eq by blast
qed

theorem repetitiveFrames_count_bound_witness:
  "[JNull, JNull] \<noteq> []
   \<and> length (identifyRepetitiveFrames integer_text (JArr [JNull, JNull] [])) = 1
   \<and> length (identifyRepetitiveFrames integer_text (JArr [JNull, JNull] [])) < length [JNull, JNull]
   \<and> length [JNull] \<le> 1
   \<and> identifyRepetitiveFrames integer_text (JArr [JNull] []) = []
   \<and> identifyRepetitiveFrames integer_text (JArr [] []) = []"
proof -
  have same: "\<forall>i < length [JNull, JNull].
      json_stringify integer_text ([JNull, JNull] ! i) = json_stringify integer_text ([JNull, JNull] ! 0)"
    by (simp add: nth_Cons split: nat.splits)
  note t = repetitiveFrames_count_bound [of "[JNull, JNull]" integer_text "[]"]
  from t same have "int (length (identifyRepetitiveFrames integer_text (JArr [JNull, JNull] []))) = int (length [JNull, JNull]) - 1"
    by blast
  then have one: "length (identifyRepetitiveFrames integer_text (JArr [JNull, JNull] [])) = 1"
    by simp
  show ?thesis
    using t repetitiveFrames_count_bound [of "[JNull]" integer_text "[]"]
      repetitiveFrames_count_bound [of "[]" integer_text "[]"] one
    by simp
qed

lemma frameCount_array_or_falsy:
  assumes "analyzeLoop ns animationData = Inr analysis"
  shows "(js_get animationData ''frames'' = JArr frames ps \<longrightarrow>
            frameCount analysis = JNum (of_nat (length frames)))
       \<and> (js_get animationData ''frames'' = JUndefined \<longrightarrow> frameCount analysis = JNum 0)
       \<and> (\<not> truthy (js_get animationData ''frames'') \<longrightarrow> frameCount analysis = JNum 0)"
  using analyzeLoop_InrD(3) [OF assms] by (auto simp add: js_or_def)

text \<open>
  C7.  The frames are taken with \<^verbatim>\<open>animationData.frames || []\<close>, which puts the empty
  sequence in the place of a falsy value only: \<^verbatim>\<open>frameCount\<close> is the length of an array and
  0 when \<^verbatim>\<open>frames\<close> is absent or falsy, as the claim says, but of a truthy value that is not
  a sequence the analysis reads the property \<^verbatim>\<open>length\<close> all the same.  With the number 7
  for \<^verbatim>\<open>frames\<close> it reports \<^verbatim>\<open>frameCount\<close> \<^verbatim>\<open>undefined\<close>, not 0, and the duration \<^verbatim>\<open>NaN\<close>; the
  search for repetitive frames and the compression, which check \<^verbatim>\<open>Array.isArray\<close>, find
  no frame in the same value.
\<close>

theorem frameCount_number_frames:
  "\<not> isArray (JNum 7)
   \<and> map_sum id frameCount (analyzeLoop integer_text (JObj [(''frames'', JNum 7)])) = Inr JUndefined
   \<and> map_sum id frameCount (analyzeLoop integer_text (JObj [(''frames'', JNum 7)])) \<noteq> Inr (JNum 0)
   \<and> map_sum id duration (analyzeLoop integer_text (JObj [(''frames'', JNum 7)])) = Inr JNaN
   \<and> map_sum id repetitiveFrames (analyzeLoop integer_text (JObj [(''frames'', JNum 7)])) = Inr []
   \<and> compressRepetitiveFrames (JNum 7) [1] = JNum 7"
  by (simp add: analyzeLoop_def estimateOptimizationPotential_def js_or_def js_div_30_def
      and_then_def Let_def)

theorem frameCount_number_frames_witness:
  "map_sum id frameCount (analyzeLoop integer_text (JObj [(''frames'', JNum 7)])) = Inr JUndefined
   \<and> map_sum id duration (analyzeLoop integer_text (JObj [(''frames'', JNum 7)])) = Inr JNaN"
  using frameCount_number_frames by simp

text \<open>
  C8, as stated, fails when the \<^verbatim>\<open>duration\<close> field is present and 0: with three frames
  the analysis reports the quotient \<^verbatim>\<open>3 / 30\<close>, not the field.
\<close>

theorem duration_zero_counterexample:
  "map_of [(''frames'', JArr [JNull, JNull, JNull] []), (''duration'', JNum 0)] ''duration'' = Some (JNum 0)
   \<and> map_sum id duration
        (analyzeLoop integer_text (JObj [(''frames'', JArr [JNull, JNull, JNull] []), (''duration'', JNum 0)]))
      = Inr (JNum (3602879701896397 / 36028797018963968))
   \<and> map_sum id duration
        (analyzeLoop integer_text (JObj [(''frames'', JArr [JNull, JNull, JNull] []), (''duration'', JNum 0)]))
      \<noteq> Inr (JNum 0)"
proof -
  let ?X = "JObj [(''frames'', JArr [JNull, JNull, JNull] []), (''duration'', JNum 0)]"
  have "map_sum id duration (analyzeLoop integer_text ?X) = js_div_30 integer_text (JNum 3)"
    by (simp add: duration_outcome js_or_def)
  also have "\<dots> = Inr (JNum (3602879701896397 / 36028797018963968))"
    using js_div_30_nat [of 3 integer_text] binary64_tenth by simp
  finally show ?thesis by simp
qed

text \<open>
  C8, amended.  For an input that passes the validation, the reported duration is the
  \<^verbatim>\<open>duration\<close> field when that field is truthy, and \<^verbatim>\<open>frameCount / 30\<close> when the field is
  absent or falsy (0, \<^verbatim>\<open>NaN\<close>, \<^verbatim>\<open>null\<close>, \<^verbatim>\<open>false\<close>, the empty string).  The quotient is the one
  of JavaScript: \<^verbatim>\<open>frameCount\<close> is converted to a number and the quotient rounded to
  binary64; for an array of \<open>n\<close> frames it is the binary64 value of \<open>n / 30\<close>, without frames
  it is 0, and when \<^verbatim>\<open>frameCount\<close> has no primitive value the analysis ends with the
  \<^verbatim>\<open>TypeError\<close> of the conversion and reports nothing.
\<close>

theorem duration_of_analysis:
  assumes "truthy animationData" and "js_typeof animationData = ''object''"
  shows "(truthy (js_get animationData ''duration'') \<longrightarrow>
            map_sum id duration (analyzeLoop ns animationData) = Inr (js_get animationData ''duration''))
       \<and> (\<not> truthy (js_get animationData ''duration'') \<longrightarrow>
            map_sum id duration (analyzeLoop ns animationData)
              = js_div_30 ns (js_get (js_or (js_get animationData ''frames'') (JArr [] [])) ''length''))
       \<and> (animationData = JObj kvs \<and> map_of kvs ''duration'' = None \<longrightarrow>
            map_sum id duration (analyzeLoop ns animationData)
              = js_div_30 ns (js_get (js_or (js_get animationData ''frames'') (JArr [] [])) ''length''))
       \<and> (analyzeLoop ns animationData = Inr analysis \<and> \<not> truthy (js_get animationData ''duration'') \<longrightarrow>
            js_div_30 ns (frameCount analysis) = Inr (duration analysis))
       \<and> (\<not> truthy (js_get animationData ''duration'') \<and> js_get animationData ''frames'' = JArr frames ps
            \<and> length frames < 2 ^ 53 \<longrightarrow>
            map_sum id duration (analyzeLoop ns animationData)
              = Inr (binary64 (of_nat (length frames) / 30)))
       \<and> (\<not> truthy (js_get animationData ''duration'') \<and> \<not> truthy (js_get animationData ''frames'') \<longrightarrow>
            map_sum id duration (analyzeLoop ns animationData) = Inr (JNum 0))"
proof -
  note d = duration_outcome [OF assms, of ns]
  have 1: "map_sum id duration (analyzeLoop ns animationData) = Inr (js_get animationData ''duration'')"
    if "truthy (js_get animationData ''duration'')"
    using d that by simp
  have 2: "map_sum id duration (analyzeLoop ns animationData)
              = js_div_30 ns (js_get (js_or (js_get animationData ''frames'') (JArr [] [])) ''length'')"
    if "\<not> truthy (js_get animationData ''duration'')"
    using d that by simp
  have 3: "map_sum id duration (analyzeLoop ns animationData)
              = js_div_30 ns (js_get (js_or (js_get animationData ''frames'') (JArr [] [])) ''length'')"
    if "animationData = JObj kvs" "map_of kvs ''duration'' = None"
    using 2 that by simp
  have 4: "js_div_30 ns (frameCount analysis) = Inr (duration analysis)"
    if "analyzeLoop ns animationData = Inr analysis" "\<not> truthy (js_get animationData ''duration'')"
    using analyzeLoop_InrD(4) [OF that(1)] that(2) by simp
  have 5: "map_sum id duration (analyzeLoop ns animationData) = Inr (binary64 (of_nat (length frames) / 30))"
    if "\<not> truthy (js_get animationData ''duration'')" "js_get animationData ''frames'' = JArr frames ps"
      "length frames < 2 ^ 53"
    using 2 [OF that(1)] that(2) js_div_30_nat [OF that(3), of ns] by (simp add: js_or_def)
  have 6: "map_sum id duration (analyzeLoop ns animationData) = Inr (JNum 0)"
    if "\<not> truthy (js_get animationData ''duration'')" "\<not> truthy (js_get animationData ''frames'')"
    using 2 [OF that(1)] that(2) js_div_30_nat [of 0 ns] by (simp add: js_or_def binary64_def)
  show ?thesis
    using 1 2 3 4 5 6 by blast
qed

lemma binary64_2: "binary64 2 = JNum 2"
  using binary64_nat [of 2] by simp

lemma binary64_60: "binary64 60 = JNum 60"
  using binary64_nat [of 60] by simp

lemma div_30_sixty: "js_div_30 integer_text (JStr ''60'') = Inr (JNum 2)"
  by (simp add: js_div_30_def string_to_number_def trim_def is_space_def unsigned_decimal_def
      exponent_part_def is_digit_def digits_value_def pow10_def binary64_60 binary64_2 Let_def)

lemma div_30_seven_tenths:
  "js_div_30 integer_text (JNum (7 / 10)) = Inr (JNum (1681343860884985 / 72057594037927936))"
proof -
  have 1: "binary64 (7 / 10) = JNum (3152519739159347 / 4503599627370496)"
    by (subst binary64_normal [of "- 1"]) (simp_all add: pow2_def round_half_even_def Let_def floor_rat_numeral)
  have 2: "binary64 (3152519739159347 / 135107988821114880) = JNum (1681343860884985 / 72057594037927936)"
    by (subst binary64_normal [of "- 6"]) (simp_all add: pow2_def round_half_even_def Let_def floor_rat_numeral)
  show ?thesis
    by (simp add: js_div_30_def 1 2)
qed

theorem duration_of_analysis_witness:
  "map_sum id duration
     (analyzeLoop integer_text (JObj [(''frames'', JArr [JNull, JNull, JNull] []), (''duration'', JNum 2)]))
     = Inr (JNum 2)
   \<and> map_sum id duration (analyzeLoop integer_text (JObj [(''frames'', JArr [JNull, JNull, JNull] [])]))
     = Inr (JNum (3602879701896397 / 36028797018963968))
   \<and> map_sum id duration (analyzeLoop integer_text (JObj [])) = Inr (JNum 0)
   \<and> map_sum id duration (analyzeLoop integer_text (JObj [(''frames'', JObj [(''length'', JStr ''60'')])]))
     = Inr (JNum 2)
   \<and> map_sum id duration (analyzeLoop integer_text (JObj [(''frames'', JObj [(''length'', JNum (7 / 10))])]))
     = Inr (JNum (1681343860884985 / 72057594037927936))
   \<and> map_sum id duration
       (analyzeLoop integer_text (JObj [(''frames'', JObj [(''length'', JObj [(''toString'', JNull)])])]))
     = Inl TypeError"
proof -
  let ?fs = "[JNull, JNull, JNull]"
  let ?X1 = "JObj [(''frames'', JArr ?fs []), (''duration'', JNum 2)]"
  let ?X2 = "JObj [(''frames'', JArr ?fs [])]"
  let ?X3 = "JObj []"
  let ?X4 = "JObj [(''frames'', JObj [(''length'', JStr ''60'')])]"
  let ?X5 = "JObj [(''frames'', JObj [(''length'', JNum (7 / 10))])]"
  let ?X6 = "JObj [(''frames'', JObj [(''length'', JObj [(''toString'', JNull)])])]"
  have 1: "map_sum id duration (analyzeLoop integer_text ?X1) = Inr (JNum 2)"
    using duration_of_analysis [of ?X1 integer_text, THEN conjunct1] by simp
  have 2: "map_sum id duration (analyzeLoop integer_text ?X2) = Inr (JNum (3602879701896397 / 36028797018963968))"
    using duration_of_analysis [of ?X2 integer_text _ _ ?fs "[]",
        THEN conjunct2, THEN conjunct2, THEN conjunct2, THEN conjunct2, THEN conjunct1]
      binary64_tenth
    by simp
  have 3: "map_sum id duration (analyzeLoop integer_text ?X3) = Inr (JNum 0)"
    using duration_of_analysis [of ?X3 integer_text,
        THEN conjunct2, THEN conjunct2, THEN conjunct2, THEN conjunct2, THEN conjunct2]
    by simp
  have 4: "map_sum id duration (analyzeLoop integer_text ?X4) = Inr (JNum 2)"
    using duration_of_analysis [of ?X4 integer_text, THEN conjunct2, THEN conjunct1] div_30_sixty
    by (simp add: js_or_def)
  have 5: "map_sum id duration (analyzeLoop integer_text ?X5) = Inr (JNum (1681343860884985 / 72057594037927936))"
    using duration_of_analysis [of ?X5 integer_text, THEN conjunct2, THEN conjunct1] div_30_seven_tenths
    by (simp add: js_or_def)
  have 6: "map_sum id duration (analyzeLoop integer_text ?X6) = Inl TypeError"
    using duration_of_analysis [of ?X6 integer_text, THEN conjunct2, THEN conjunct1]
    by (simp add: js_or_def js_div_30_def)
  from 1 2 3 4 5 6 show ?thesis
    by (intro conjI)
qed

subsection \<open>The size estimate\<close>

lemma floorlog_large:
  assumes "2 ^ 52 \<le> (n::nat)"
  shows "2 ^ (floorlog 2 n - 53 + 52) \<le> n" and "n < 2 ^ (floorlog 2 n - 53 + 53)"
proof -
  have pos: "0 < n"
    using assms by (cases "n = 0") auto
  from floorlog_bounds [of n 2] pos
  have lo: "2 ^ (floorlog 2 n - 1) \<le> n" and hi: "n < 2 ^ floorlog 2 n"
    by auto
  have "(2::nat) ^ 52 < 2 ^ floorlog 2 n"
    using assms hi by (rule le_less_trans)
  then have "52 < floorlog 2 n"
    by (simp only: power_strict_increasing_iff [of 2 52] one_less_numeral_iff semiring_norm)
  then have e: "floorlog 2 n - 53 + 52 = floorlog 2 n - 1" "floorlog 2 n - 53 + 53 = floorlog 2 n"
    by arith+
  show "2 ^ (floorlog 2 n - 53 + 52) \<le> n"
    using lo by (simp only: e)
  show "n < 2 ^ (floorlog 2 n - 53 + 53)"
    using hi by (simp only: e)
qed

lemma round_53_near:
  fixes n :: nat
  defines "D \<equiv> 2 ^ (floorlog 2 n - 53)"
  shows "2 * round_53 n \<le> 2 * n + D" and "2 * n \<le> 2 * round_53 n + D"
proof -
  let ?q = "n div D" and ?r = "n mod D"
  have D: "0 < D" by (simp add: D_def)
  have n: "n = ?q * D + ?r" by simp
  have r: "?r < D" using D by simp
  have R: "round_53 n = (if D < 2 * ?r \<or> (2 * ?r = D \<and> odd ?q) then ?q + 1 else ?q) * D"
    by (simp add: round_53_def Let_def D_def)
  show "2 * round_53 n \<le> 2 * n + D"
  proof (cases "D < 2 * ?r \<or> (2 * ?r = D \<and> odd ?q)")
    case True
    then have "round_53 n = (?q + 1) * D" using R by (simp only: if_P if_True)
    then have "round_53 n = ?q * D + D" by (simp add: algebra_simps)
    moreover from True have "D \<le> 2 * ?r" by auto
    ultimately show ?thesis using n by arith
  next
    case False
    then have "round_53 n = ?q * D" using R by (simp only: if_not_P if_False)
    then show ?thesis using n by arith
  qed
  show "2 * n \<le> 2 * round_53 n + D"
  proof (cases "D < 2 * ?r \<or> (2 * ?r = D \<and> odd ?q)")
    case True
    then have "round_53 n = (?q + 1) * D" using R by (simp only: if_P if_True)
    then have "round_53 n = ?q * D + D" by (simp add: algebra_simps)
    then show ?thesis using n r by arith
  next
    case False
    then have "round_53 n = ?q * D" using R by (simp only: if_not_P if_False)
    moreover from False have "2 * ?r \<le> D" by auto
    ultimately show ?thesis using n by arith
  qed
qed


lemma round_53_halfway_up:
  fixes n t j :: nat
  assumes D: "D = 2 ^ (floorlog 2 n - 53)" and n: "n + 2 * j = t * D" and j: "0 < j" "4 * j < D"
  shows "round_53 n = t * D"
proof -
  have t: "0 < t"
    using n j by (cases "t = 0") auto
  then obtain u where u: "t = Suc u"
    by (cases t) auto
  have "n + 2 * j = u * D + D"
    using n u by simp
  then have n': "n = D * u + (D - 2 * j)"
    using j by (simp add: algebra_simps)
  have small: "D - 2 * j < D"
    using j by arith
  have q: "n div D = u"
    unfolding n' using small by simp
  have r: "n mod D = D - 2 * j"
    unfolding n' using small by simp
  have up: "D < 2 * (n mod D)"
    unfolding r using j by arith
  have "round_53 n = (if D < 2 * (n mod D) \<or> (2 * (n mod D) = D \<and> odd (n div D))
                      then n div D + 1 else n div D) * D"
    by (simp add: round_53_def Let_def D)
  also have "\<dots> = (n div D + 1) * D"
    using up by (simp only: if_P simp_thms)
  finally show ?thesis
    using q u by simp
qed

lemma floor_times_0_3_exact:
  assumes "s < 2 ^ 51"
  shows "floor_times_0_3 s = 3 * s div 10"
proof (cases "s = 0")
  case True
  then show ?thesis
    by (simp add: floor_times_0_3_def round_53_def floorlog_def)
next
  case False
  define N where "N = s * 5404319552844595"
  define D :: nat where "D = 2 ^ (floorlog 2 N - 53)"
  define R where "R = round_53 N"
  define k where "k = 3 * s div 10"
  define m where "m = 3 * s mod 10"
  have s: "s < 2251799813685248" "0 < s"
    using assms False by simp_all
  have km: "3 * s = 10 * k + m" "m < 10"
    by (simp_all add: k_def m_def)
  have "10 * N + 2 * s = (3 * s) * 18014398509481984"
    unfolding N_def by simp
  then have eq: "10 * N + 2 * s = 180143985094819840 * k + 18014398509481984 * m"
    unfolding km(1) by simp
  have big: "2 ^ 52 \<le> N"
    using s(2) by (simp add: N_def)
  have lo: "D * 4503599627370496 \<le> N"
    using floorlog_large(1) [OF big] by (simp add: D_def power_add)
  have hi: "N < D * 9007199254740992"
    using floorlog_large(2) [OF big] by (simp add: D_def power_add)
  have near: "2 * R \<le> 2 * N + D" "2 * N \<le> 2 * R + D"
    using round_53_near [of N] by (simp_all add: R_def D_def)
  have "R < 18014398509481984 * k + 18014398509481984"
    using near(1) lo eq km s(1) by linarith
  then have upper: "R < 18014398509481984 * Suc k"
    by simp
  have lower: "18014398509481984 * k \<le> R"
  proof (cases "m = 0")
    case False
    then have "1 \<le> m" by simp
    then show ?thesis
      using near(2) lo eq km s(1) by linarith
  next
    case True
    then have "3 * s = 10 * k" using km by simp
    then have "s mod 10 = 0" by presburger
    then obtain j where j: "s = 10 * j" by (auto simp add: mod_eq_0_iff_dvd)
    then have k: "k = 3 * j" using \<open>3 * s = 10 * k\<close> by simp
    have j0: "0 < j" using j s(2) by simp
    have N: "N + 2 * j = 3 * j * 18014398509481984"
      using eq True j k by simp
    have j4: "4 * j < D"
      using N hi by simp
    have "D < 2 ^ 52"
      using lo N j s(1) by simp
    then have d: "floorlog 2 N - 53 < 52"
      unfolding D_def by (simp only: power_strict_increasing_iff [of 2] one_less_numeral_iff semiring_norm)
    have "(18014398509481984::nat) = 2 ^ 54"
      by simp
    also have "\<dots> = 2 ^ (54 - (floorlog 2 N - 53)) * D"
      unfolding D_def using d by (simp only: power_add [symmetric]) simp
    finally have C: "(18014398509481984::nat) = 2 ^ (54 - (floorlog 2 N - 53)) * D" .
    have "N + 2 * j = (3 * j * 2 ^ (54 - (floorlog 2 N - 53))) * D"
      using N C by (simp add: mult.assoc)
    from round_53_halfway_up [OF D_def this j0 j4]
    have "R = 3 * j * 18014398509481984"
      unfolding R_def using C by (simp add: mult.assoc)
    then show ?thesis using k by simp
  qed
  have "R div 18014398509481984 = k"
    using lower upper by (rule div_nat_eqI)
  then show ?thesis
    by (simp add: floor_times_0_3_def R_def N_def k_def)
qed

lemma floor_three_tenths: "\<lfloor>(3 / 10 :: rat) * of_nat s\<rfloor> = int (3 * s div 10)"
proof -
  have "(3 / 10 :: rat) * of_nat s = of_nat (3 * s) / of_nat 10"
    by simp
  then show ?thesis
    by (simp only: floor_divide_of_nat_eq)
qed

lemma size_in_bytes_ge: "length s \<le> size_in_bytes s"
  by (induction s) (simp_all add: size_in_bytes_def)

lemma size_in_bytes_ascii:
  "(\<forall>c \<in> set s. (of_char c :: nat) < 128) \<Longrightarrow> size_in_bytes s = length s"
  by (induction s) (simp_all add: size_in_bytes_def)

lemma size_in_bytes_append: "size_in_bytes (s @ t) = size_in_bytes s + size_in_bytes t"
  by (simp add: size_in_bytes_def)

lemma size_in_bytes_replicate:
  "size_in_bytes (replicate n c) = n * (if (of_char c :: nat) < 128 then 1 else 2)"
  by (induction n) (simp_all add: size_in_bytes_def)

lemma quote_replicate:
  "32 \<le> (of_char c :: nat) \<Longrightarrow> (of_char c :: nat) \<noteq> 34 \<Longrightarrow> (of_char c :: nat) \<noteq> 92
     \<Longrightarrow> concat (map quote_char (replicate n c)) = replicate n c"
  by (induction n) (simp_all add: quote_char_def Let_def)

text \<open>
  C9, as stated, fails on a text that is not ASCII: the estimate counts the code units of
  the JSON text, not its bytes.  A record with 600 times the letter U+00E9 has a text of
  608 code units and 1208 bytes; the estimate is \<^verbatim>\<open>low\<close> and 182, where the size in bytes
  gives \<^verbatim>\<open>medium\<close> and 362.
\<close>

theorem size_in_bytes_counterexample:
  "map_option size_in_bytes
      (json_stringify integer_text (JObj [(''t'', JStr (replicate 600 (CHR 0xE9)))])) = Some 1208
   \<and> (1000 :: nat) < 1208
   \<and> map_sum id sizeReductionPotential
        (estimateOptimizationPotential integer_text (JObj [(''t'', JStr (replicate 600 (CHR 0xE9)))]))
      = Inr ''low''
   \<and> \<lfloor>(3 / 10 :: rat) * 1208\<rfloor> = 362
   \<and> map_sum id estimatedSizeReduction
        (estimateOptimizationPotential integer_text (JObj [(''t'', JStr (replicate 600 (CHR 0xE9)))]))
      = Inr 182"
proof -
  let ?X = "JObj [(''t'', JStr (replicate 600 (CHR 0xE9)))]"
  let ?text = "''{'' @ quote_json ''t'' @ '':'' @ [CHR 0x22] @ replicate 600 (CHR 0xE9) @ [CHR 0x22] @ ''}''"
  have q: "concat (map quote_char (replicate 600 (CHR 0xE9))) = replicate 600 (CHR 0xE9)"
    by (rule quote_replicate) simp_all
  have t: "json_stringify integer_text ?X = Some ?text"
    using q by (simp add: quote_json_def del: map_replicate)
  have b: "size_in_bytes ?text = 1208"
    by (simp only: size_in_bytes_append size_in_bytes_replicate)
       (simp add: size_in_bytes_def quote_json_def quote_char_def)
  have l: "length ?text = 608"
    by (simp add: quote_json_def quote_char_def)
  have f: "floor_times_0_3 608 = 182"
    using floor_times_0_3_exact [of 608] by simp
  have e: "estimateOptimizationPotential integer_text ?X
      = Inr \<lparr> sizeReductionPotential = ''low'', performanceImprovementPotential = ''medium'',
              estimatedSizeReduction = 182 \<rparr>"
    unfolding estimateOptimizationPotential_def t option.case Let_def l f by simp
  have fl: "\<lfloor>(3 / 10 :: rat) * 1208\<rfloor> = 362"
    by (simp add: floor_rat_numeral)
  show ?thesis
    unfolding t e using b fl by simp
qed

text \<open>
  C9, amended.  For an input that passes the validation, let \<open>s\<close> be the length of the JSON
  text of the whole animation record, counted in code units as \<^verbatim>\<open>length\<close> counts (it is the
  size in bytes when the text is ASCII, and below it otherwise).  Then
  \<^verbatim>\<open>estimatedSizeReduction\<close>, computed in binary64 as \<^verbatim>\<open>Math.floor(s * 0.3)\<close>, is the integer
  part of \<open>0.3 s\<close> (for every length below \<open>2\<^sup>5\<^sup>1\<close>, far above the longest string of an
  engine), and \<^verbatim>\<open>sizeReductionPotential\<close> is \<^verbatim>\<open>high\<close> exactly when \<open>s > 10000\<close>, \<^verbatim>\<open>medium\<close>
  exactly when \<open>1000 < s \<le> 10000\<close>, and \<^verbatim>\<open>low\<close> exactly when \<open>s \<le> 1000\<close>.
\<close>

theorem estimateOptimizationPotential_size:
  assumes "truthy animationData" and "js_typeof animationData = ''object''"
  shows "\<exists>text p. json_stringify ns animationData = Some text
     \<and> estimateOptimizationPotential ns animationData = Inr p
     \<and> (\<forall>analysis. analyzeLoop ns animationData = Inr analysis \<longrightarrow>
          estimatedOptimizationPotential analysis = p)
     \<and> (length text < 2 ^ 51 \<longrightarrow>
          int (estimatedSizeReduction p) = \<lfloor>(3 / 10 :: rat) * of_nat (length text)\<rfloor>)
     \<and> (sizeReductionPotential p = ''high'' \<longleftrightarrow> length text > 10000)
     \<and> (sizeReductionPotential p = ''medium'' \<longleftrightarrow> 1000 < length text \<and> length text \<le> 10000)
     \<and> (sizeReductionPotential p = ''low'' \<longleftrightarrow> length text \<le> 1000)
     \<and> length text \<le> size_in_bytes text
     \<and> ((\<forall>c \<in> set text. (of_char c :: nat) < 128) \<longrightarrow> size_in_bytes text = length text)"
proof -
  from estimate_Inr [OF assms, of ns]
  obtain str where t: "json_stringify ns animationData = Some str"
    and e: "estimateOptimizationPotential ns animationData =
       Inr \<lparr> sizeReductionPotential =
               (if length str > 10000 then ''high'' else if length str > 1000 then ''medium'' else ''low''),
             performanceImprovementPotential = ''medium'',
             estimatedSizeReduction = floor_times_0_3 (length str) \<rparr>"
    by auto
  define p where "p = \<lparr> sizeReductionPotential =
               (if length str > 10000 then ''high'' else if length str > 1000 then ''medium'' else ''low''),
             performanceImprovementPotential = ''medium'',
             estimatedSizeReduction = floor_times_0_3 (length str) \<rparr>"
  have e': "estimateOptimizationPotential ns animationData = Inr p"
    using e by (simp only: p_def)
  have 0: "\<forall>analysis. analyzeLoop ns animationData = Inr analysis \<longrightarrow>
          estimatedOptimizationPotential analysis = p"
    using analyzeLoop_InrD(6) e' by fastforce
  have 1: "int (estimatedSizeReduction p) = \<lfloor>(3 / 10 :: rat) * of_nat (length str)\<rfloor>"
    if "length str < 2 ^ 51"
    unfolding p_def floor_three_tenths using floor_times_0_3_exact [OF that] by simp
  have 2: "sizeReductionPotential p = ''high'' \<longleftrightarrow> length str > 10000"
    unfolding p_def by simp
  have 3: "sizeReductionPotential p = ''medium'' \<longleftrightarrow> 1000 < length str \<and> length str \<le> 10000"
    unfolding p_def by simp
  have 4: "sizeReductionPotential p = ''low'' \<longleftrightarrow> length str \<le> 1000"
    unfolding p_def by simp
  have 5: "length str \<le> size_in_bytes str"
    by (rule size_in_bytes_ge)
  have 6: "(\<forall>c \<in> set str. (of_char c :: nat) < 128) \<longrightarrow> size_in_bytes str = length str"
    using size_in_bytes_ascii by blast
  show ?thesis
    apply (rule exI [of _ str], rule exI [of _ p])
    apply (intro conjI)
            apply (rule t)
           apply (rule e')
          apply (rule 0)
         apply (rule impI, erule 1)
        apply (rule 2)
       apply (rule 3)
      apply (rule 4)
     apply (rule 5)
    apply (rule 6)
    done
qed

theorem estimateOptimizationPotential_size_witness:
  "\<exists>analysis text. analyzeLoop integer_text (JObj [(''frames'', JArr [JNull, JNull] [])]) = Inr analysis
     \<and> json_stringify integer_text (JObj [(''frames'', JArr [JNull, JNull] [])]) = Some text
     \<and> length text = 22 \<and> length text < 2 ^ 51 \<and> size_in_bytes text = 22
     \<and> estimatedSizeReduction (estimatedOptimizationPotential analysis) = 6
     \<and> sizeReductionPotential (estimatedOptimizationPotential analysis) = ''low''"
proof -
  let ?X = "JObj [(''frames'', JArr [JNull, JNull] [])]"
  obtain r where r: "analyzeLoop integer_text ?X = Inr r"
    using analyzeLoop_Inr [of ?X integer_text] by auto
  have v: "truthy ?X" "js_typeof ?X = ''object''"
    by simp_all
  from estimateOptimizationPotential_size [OF v, of integer_text] obtain str p
    where t: "json_stringify integer_text ?X = Some str"
    and a: "\<forall>analysis. analyzeLoop integer_text ?X = Inr analysis \<longrightarrow>
          estimatedOptimizationPotential analysis = p"
    and e: "length str < 2 ^ 51 \<longrightarrow>
          int (estimatedSizeReduction p) = \<lfloor>(3 / 10 :: rat) * of_nat (length str)\<rfloor>"
    and l: "sizeReductionPotential p = ''low'' \<longleftrightarrow> length str \<le> 1000"
    and b: "(\<forall>c \<in> set str. (of_char c :: nat) < 128) \<longrightarrow> size_in_bytes str = length str"
    by blast
  have p: "estimatedOptimizationPotential r = p"
    using a r by blast
  have s: "str = ''{'' @ quote_json ''frames'' @ '':'' @ ''[null,null]'' @ ''}''"
    using t by (simp add: element_text_def)
  have len: "length str = 22"
    unfolding s by (simp add: quote_json_def quote_char_def)
  have bytes: "size_in_bytes str = 22"
    using b unfolding s by (simp add: quote_json_def quote_char_def)
  have "int (estimatedSizeReduction p) = 6"
    using e unfolding len floor_three_tenths by simp
  then show ?thesis
    using r t l len p bytes by simp
qed

subsection \<open>Objects and the copy through JSON\<close>

lemma map_of_insert_key:
  "k \<notin> fst ` set kvs \<Longrightarrow> map_of (insert_key k v kvs) = (map_of kvs)(k \<mapsto> v)"
proof (induction kvs)
  case Nil
  show ?case by simp
next
  case (Cons p kvs)
  obtain k' v' where p: "p = (k', v')" by (cases p)
  from Cons.prems p have ne: "k \<noteq> k'" and notin: "k \<notin> fst ` set kvs"
    by auto
  from Cons.IH [OF notin] ne show ?case
    unfolding p by (auto simp add: fun_upd_twist split: option.splits)
qed

lemma map_of_replace:
  "map_of (map (\<lambda>(k', v'). if k' = k then (k', v) else (k', v')) kvs) =
     (if k \<in> fst ` set kvs then (map_of kvs)(k \<mapsto> v) else map_of kvs)"
  by (induction kvs) (auto simp add: fun_eq_iff)

lemma map_of_obj_put: "map_of (obj_put kvs k v) = (map_of kvs)(k \<mapsto> v)"
  by (simp add: obj_put_def map_of_replace map_of_insert_key)

lemma key_index_names [simp]:
  "key_index ''frames'' = None" "key_index ''metadata'' = None" "key_index ''optimized'' = None"
  "key_index ''optimizationLevel'' = None" "key_index ''sizeReduction'' = None"
  "key_index ''timestamp'' = None" "key_index ''length'' = None"
  by (simp_all add: key_index_def is_digit_def)

lemma js_get_js_set:
  assumes "js_set v k x = Inr v'" and "k \<noteq> ''length''" and "key_index k = None"
  shows "js_get v' k' = (if k' = k then x else js_get v k')"
proof (cases v)
  case (JObj kvs)
  with assms show ?thesis by (auto simp add: map_of_obj_put)
next
  case (JArr xs ps)
  with assms show ?thesis by (auto simp add: map_of_obj_put split: option.splits)
qed (use assms in auto)

lemma js_set_Inr_iff: "(\<exists>v'. js_set v k x = Inr v') \<longleftrightarrow> isArray v \<or> (\<exists>kvs. v = JObj kvs)"
  by (cases v) auto

lemma element_copy_id:
  assumes "\<And>x. x \<in> set xs \<Longrightarrow> json_copy x = Some x"
  shows "map element_copy (map json_copy xs) = xs"
  using assms by (induction xs) (auto simp add: element_copy_def)

lemma member_copies_id:
  assumes "\<And>k x. (k, x) \<in> set kvs \<Longrightarrow> json_copy x = Some x"
  shows "member_copies (map (map_prod id json_copy) kvs) = kvs"
  using assms
proof (induction kvs)
  case Nil
  show ?case by simp
next
  case (Cons p kvs)
  obtain k x where p: "p = (k, x)" by (cases p)
  have "json_copy x = Some x" using Cons.prems [of k x] p by simp
  moreover have "member_copies (map (map_prod id json_copy) kvs) = kvs"
  proof (rule Cons.IH)
    fix k' x' assume "(k', x') \<in> set kvs"
    then have "(k', x') \<in> set (p # kvs)" by simp
    then show "json_copy x' = Some x'" by (rule Cons.prems)
  qed
  ultimately show ?case unfolding p by (simp add: id_def)
qed

lemma json_copy_is_json: "is_json v \<Longrightarrow> json_copy v = Some v"
proof (induction v)
  case (JArr xs ps)
  have "map element_copy (map json_copy xs) = xs"
  proof (rule element_copy_id)
    fix x assume "x \<in> set xs"
    with JArr show "json_copy x = Some x" by (auto simp add: list_all_iff)
  qed
  with JArr.prems show ?case by simp
next
  case (JObj kvs)
  have "member_copies (map (map_prod id json_copy) kvs) = kvs"
  proof (rule member_copies_id)
    fix k x assume "(k, x) \<in> set kvs"
    with JObj show "json_copy x = Some x" by (fastforce simp add: list_all_iff)
  qed
  then show ?case by simp
qed simp_all

lemma map_nth_filter_nths:
  "map (\<lambda>i. xs ! i) (filter P [0..<length xs]) = nths xs {i. P i}"
proof (induction xs rule: rev_induct)
  case Nil
  show ?case by simp
next
  case (snoc x xs)
  have "map (\<lambda>i. (xs @ [x]) ! i) (filter P [0..<length xs]) = map (\<lambda>i. xs ! i) (filter P [0..<length xs])"
    by (rule map_cong) (auto simp add: nth_append)
  with snoc show ?case
    by (simp add: nths_append nths_singleton)
qed

subsection \<open>Local optimizations\<close>

lemma add_metadata_get:
  assumes "add_metadata now optimized options = Inr out" and "k \<noteq> ''metadata''"
  shows "js_get out k = js_get optimized k"
proof -
  from assms(1) obtain o1 m3 where
    s1: "js_set optimized ''metadata'' (js_or (js_get optimized ''metadata'') (JObj [])) = Inr o1"
    and s2: "js_set o1 ''metadata'' m3 = Inr out"
    by (auto simp add: add_metadata_def and_then_def js_read_def Let_def split: sum.splits if_splits)
  have "js_get out k = js_get o1 k"
    using js_get_js_set [OF s2] assms(2) by simp
  also have "\<dots> = js_get optimized k"
    using js_get_js_set [OF s1] assms(2) by simp
  finally show ?thesis .
qed

lemma add_metadata_Inr:
  assumes "isArray optimized \<or> (\<exists>kvs. optimized = JObj kvs)"
    and "\<not> truthy (js_get optimized ''metadata'') \<or> isArray (js_get optimized ''metadata'')
         \<or> (\<exists>kvs. js_get optimized ''metadata'' = JObj kvs)"
  shows "\<exists>out. add_metadata now optimized options = Inr out"
proof -
  let ?m = "js_or (js_get optimized ''metadata'') (JObj [])"
  have r: "js_read optimized ''metadata'' = Inr (js_get optimized ''metadata'')"
    using assms(1) by (auto simp add: js_read_def)
  obtain o1 where o1: "js_set optimized ''metadata'' ?m = Inr o1"
    using assms(1) js_set_Inr_iff [of optimized] by blast
  have o1': "isArray o1 \<or> (\<exists>kvs. o1 = JObj kvs)"
    using o1 by (cases optimized) auto
  have m: "isArray ?m \<or> (\<exists>kvs. ?m = JObj kvs)"
    using assms(2) by (auto simp add: js_or_def)
  then obtain m1 where m1: "js_set ?m ''optimized'' (JBool True) = Inr m1"
    using js_set_Inr_iff [of ?m] by blast
  have "isArray m1 \<or> (\<exists>kvs. m1 = JObj kvs)"
    using m1 by (cases ?m) auto
  then obtain m2 where m2: "js_set m1 ''optimizationDate'' (JStr now) = Inr m2"
    using js_set_Inr_iff [of m1] by blast
  have "isArray m2 \<or> (\<exists>kvs. m2 = JObj kvs)"
    using m2 by (cases m1) auto
  then obtain m3 where m3: "js_set m2 ''optimizationOptions'' options = Inr m3"
    using js_set_Inr_iff [of m2] by blast
  obtain out where "js_set o1 ''metadata'' m3 = Inr out"
    using o1' js_set_Inr_iff [of o1] by blast
  then show ?thesis
    using r o1 m1 m2 m3 by (simp add: add_metadata_def and_then_def Let_def)
qed

lemma apply_compression_off:
  assumes "apply_compression optimized analysis options = Inr o1"
    and "repetitiveFrames analysis = [] \<or> \<not> truthy (js_get options ''enableCompression'')"
  shows "o1 = optimized"
  using assms
  by (auto simp add: apply_compression_def and_then_def js_read_def split: if_splits)

lemma apply_compression_on:
  assumes "apply_compression optimized analysis options = Inr o1"
    and "repetitiveFrames analysis \<noteq> []" and "truthy (js_get options ''enableCompression'')"
  shows "js_set optimized ''frames''
           (compressRepetitiveFrames (js_or (js_get optimized ''frames'') (JArr [] []))
              (repetitiveFrames analysis)) = Inr o1"
  using assms
  by (auto simp add: apply_compression_def and_then_def js_read_def split: if_splits)

lemma repetitive_frames_array:
  assumes "analyzeLoop ns animationData = Inr analysis" and "repetitiveFrames analysis \<noteq> []"
  obtains frames ps where "js_get animationData ''frames'' = JArr frames ps" and "frames \<noteq> []"
proof -
  let ?f = "js_or (js_get animationData ''frames'') (JArr [] [])"
  have rep: "repetitiveFrames analysis = identifyRepetitiveFrames ns ?f"
    by (rule analyzeLoop_InrD(5) [OF assms(1)])
  with assms(2) obtain frames ps where f: "?f = JArr frames ps"
    by (cases ?f) auto
  have ne: "frames \<noteq> []"
  proof
    assume "frames = []"
    then have "identifyRepetitiveFrames ns ?f = []"
      unfolding f identify_filter by simp
    with rep assms(2) show False by simp
  qed
  then have "js_get animationData ''frames'' = JArr frames ps"
    using f by (auto simp add: js_or_def split: if_splits)
  with ne that show thesis by blast
qed

lemma is_json_get:
  assumes "is_json v" and "js_get v k = JArr frames ps" and "key_index k = None"
  shows "ps = []"
proof (cases v)
  case (JObj kvs)
  with assms(2) have "(k, JArr frames ps) \<in> set kvs"
    by (auto split: option.splits dest: map_of_SomeD)
  with assms(1) JObj have "is_json (JArr frames ps)"
    by (fastforce simp add: list_all_iff)
  then show ?thesis by simp
next
  case (JArr xs qs)
  with assms have "is_json (JArr frames ps)"
    by (auto simp add: list_all_iff split: option.splits if_splits)
  then show ?thesis by simp
next
  case (JStr s)
  with assms show ?thesis by (auto split: option.splits if_splits)
qed (use assms in auto)

lemma performLocalOptimizations_frames:
  assumes an: "analyzeLoop ns animationData = Inr analysis"
    and js: "is_json animationData"
    and out: "performLocalOptimizations now animationData analysis options = Inr out"
  shows "if repetitiveFrames analysis \<noteq> [] \<and> truthy (js_get options ''enableCompression'')
         then \<exists>frames. js_get animationData ''frames'' = JArr frames []
                \<and> js_get out ''frames'' = JArr (nths frames (- set (repetitiveFrames analysis))) []
         else js_get out ''frames'' = js_get animationData ''frames''"
proof -
  from out json_copy_is_json [OF js] obtain o1 where
    c: "apply_compression animationData analysis options = Inr o1"
    and m: "add_metadata now o1 options = Inr out"
    by (auto simp add: performLocalOptimizations_def and_then_def split: sum.splits)
  have g: "js_get out ''frames'' = js_get o1 ''frames''"
    using add_metadata_get [OF m, of "''frames''"] by simp
  show ?thesis
  proof (cases "repetitiveFrames analysis \<noteq> [] \<and> truthy (js_get options ''enableCompression'')")
    case False
    then have "o1 = animationData"
      using apply_compression_off [OF c] by blast
    with g have "js_get out ''frames'' = js_get animationData ''frames''" by simp
    with False show ?thesis by (simp only: if_not_P if_False simp_thms)
  next
    case True
    from repetitive_frames_array [OF an] True obtain frames ps
      where f: "js_get animationData ''frames'' = JArr frames ps" and ne: "frames \<noteq> []"
      by blast
    have ps: "ps = []"
      using is_json_get [OF js f] by simp
    have "compressRepetitiveFrames (js_or (js_get animationData ''frames'') (JArr [] []))
            (repetitiveFrames analysis)
          = JArr (nths frames (- set (repetitiveFrames analysis))) []"
      using True ne by (simp add: f ps js_or_def map_nth_filter_nths Compl_eq)
    with apply_compression_on [OF c] True
    have "js_set animationData ''frames'' (JArr (nths frames (- set (repetitiveFrames analysis))) []) = Inr o1"
      by simp
    from js_get_js_set [OF this, of "''frames''"] g
    have "js_get out ''frames'' = JArr (nths frames (- set (repetitiveFrames analysis))) []"
      by simp
    with f ps have "\<exists>frames. js_get animationData ''frames'' = JArr frames []
                \<and> js_get out ''frames'' = JArr (nths frames (- set (repetitiveFrames analysis))) []"
      by simp
    with True show ?thesis by (simp only: if_P if_True simp_thms)
  qed
qed

lemma apply_compression_Inr:
  assumes "isArray optimized \<or> (\<exists>kvs. optimized = JObj kvs)"
    and "options \<noteq> JUndefined" and "options \<noteq> JNull"
  shows "\<exists>o1. apply_compression optimized analysis options = Inr o1
           \<and> (isArray o1 \<or> (\<exists>kvs. o1 = JObj kvs))
           \<and> js_get o1 ''metadata'' = js_get optimized ''metadata''"
proof (cases "repetitiveFrames analysis \<noteq> [] \<and> truthy (js_get options ''enableCompression'')")
  case False
  then have "apply_compression optimized analysis options = Inr optimized"
    using assms(2,3) by (auto simp add: apply_compression_def and_then_def js_read_def)
  with assms(1) show ?thesis by simp
next
  case True
  let ?x = "compressRepetitiveFrames (js_or (js_get optimized ''frames'') (JArr [] []))
              (repetitiveFrames analysis)"
  obtain o1 where o1: "js_set optimized ''frames'' ?x = Inr o1"
    using assms(1) js_set_Inr_iff [of optimized] by blast
  have obj: "isArray o1 \<or> (\<exists>kvs. o1 = JObj kvs)"
    using o1 by (cases optimized) auto
  have "optimized \<noteq> JUndefined" "optimized \<noteq> JNull"
    using assms(1) by auto
  then have "apply_compression optimized analysis options = Inr o1"
    using True assms(2,3) o1 by (simp add: apply_compression_def and_then_def js_read_def)
  moreover have "js_get o1 ''metadata'' = js_get optimized ''metadata''"
    using js_get_js_set [OF o1, of "''metadata''"] by simp
  ultimately show ?thesis
    using obj by simp
qed

lemma performLocalOptimizations_Inr:
  assumes "is_json animationData"
    and "isArray animationData \<or> (\<exists>kvs. animationData = JObj kvs)"
    and "options \<noteq> JUndefined" and "options \<noteq> JNull"
    and "\<not> truthy (js_get animationData ''metadata'') \<or> isArray (js_get animationData ''metadata'')
         \<or> (\<exists>kvs. js_get animationData ''metadata'' = JObj kvs)"
  shows "\<exists>out. performLocalOptimizations now animationData analysis options = Inr out"
proof -
  from apply_compression_Inr [OF assms(2,3,4), of analysis] obtain o1
    where c: "apply_compression animationData analysis options = Inr o1"
      and obj: "isArray o1 \<or> (\<exists>kvs. o1 = JObj kvs)"
      and m: "js_get o1 ''metadata'' = js_get animationData ''metadata''"
    by blast
  from add_metadata_Inr [OF obj, of now options] assms(5) m obtain out
    where "add_metadata now o1 options = Inr out"
    by auto
  then show ?thesis
    using c json_copy_is_json [OF assms(1)]
    by (simp add: performLocalOptimizations_def and_then_def)
qed


subsection \<open>Options and the public operation\<close>

lemma set_insert_key: "set (insert_key k v kvs) = insert (k, v) (set kvs)"
  by (induction kvs) (auto split: option.splits if_splits)

lemma keys_insert_key: "fst ` set (insert_key k v kvs) = insert k (fst ` set kvs)"
  by (simp add: set_insert_key)

lemma distinct_insert_key:
  "k \<notin> fst ` set kvs \<Longrightarrow> distinct (map fst kvs) \<Longrightarrow> distinct (map fst (insert_key k v kvs))"
proof (induction kvs)
  case Nil
  show ?case by simp
next
  case (Cons p kvs)
  obtain k' v' where p: "p = (k', v')" by (cases p)
  have "k' \<notin> fst ` set (insert_key k v kvs)"
    using Cons.prems p by (auto simp add: keys_insert_key)
  then show ?case
    using Cons p by (auto split: option.splits)
qed

lemma map_fst_replace:
  "map fst (map (\<lambda>(k', v'). if k' = k then (k', v) else (k', v')) kvs) = map fst kvs"
  by (induction kvs) auto

lemma distinct_obj_put:
  assumes "distinct (map fst kvs)"
  shows "distinct (map fst (obj_put kvs k v))"
proof (cases "k \<in> fst ` set kvs")
  case True
  then have "obj_put kvs k v = map (\<lambda>(k', v'). if k' = k then (k', v) else (k', v')) kvs"
    by (simp add: obj_put_def)
  then show ?thesis
    using assms by (simp only: map_fst_replace)
next
  case False
  then have "obj_put kvs k v = insert_key k v kvs"
    by (simp add: obj_put_def)
  then show ?thesis
    using distinct_insert_key [OF False assms, of v] by simp
qed

lemma distinct_foldl_put:
  "distinct (map fst acc) \<Longrightarrow> distinct (map fst (foldl (\<lambda>acc (k, x). obj_put acc k x) acc kvs))"
  by (induction kvs arbitrary: acc) (auto simp add: distinct_obj_put)

lemma map_of_foldl_put:
  "map_of (foldl (\<lambda>acc (k, x). obj_put acc k x) acc kvs) = map_of acc ++ map_of (rev kvs)"
proof (induction kvs arbitrary: acc)
  case Nil
  show ?case by simp
next
  case (Cons p kvs)
  obtain k x where p: "p = (k, x)" by (cases p)
  have "map_of (foldl (\<lambda>acc (k, x). obj_put acc k x) acc (p # kvs))
          = map_of (obj_put acc k x) ++ map_of (rev kvs)"
    unfolding p using Cons.IH [of "obj_put acc k x"] by simp
  also have "\<dots> = map_of acc ++ map_of (rev (p # kvs))"
    unfolding p by (simp add: map_of_obj_put map_add_upd_left map_add_assoc fun_eq_iff map_add_def split: option.splits)
  finally show ?case .
qed

lemma map_of_rev_distinct: "distinct (map fst kvs) \<Longrightarrow> map_of (rev kvs) = map_of kvs"
proof (induction kvs)
  case Nil
  show ?case by simp
next
  case (Cons p kvs)
  obtain k x where p: "p = (k, x)" by (cases p)
  from Cons.prems p have notin: "k \<notin> fst ` set kvs" and d: "distinct (map fst kvs)"
    by auto
  have "map_of kvs k = None"
    using notin by (simp add: map_of_eq_None_iff)
  then show ?case
    unfolding p using Cons.IH [OF d]
    by (auto simp add: fun_eq_iff map_add_def split: option.splits)
qed

lemma js_get_spread_obj:
  assumes "distinct (map fst kvs)"
  shows "js_get (JObj (spread [] (JObj kvs))) k = js_get (JObj kvs) k"
  using assms by (simp add: spread_def map_of_foldl_put map_of_rev_distinct)

lemma spread_default:
  assumes "k \<notin> fst ` set (own_props v)"
  shows "map_of (spread kvs v) k = map_of kvs k"
proof -
  have "k \<notin> fst ` set (rev (own_props v))"
    using assms by simp
  then have "map_of (rev (own_props v)) k = None"
    by (simp add: map_of_eq_None_iff)
  then show ?thesis
    by (simp add: spread_def map_of_foldl_put map_add_def)
qed

lemma distinct_spread: "distinct (map fst kvs) \<Longrightarrow> distinct (map fst (spread kvs v))"
  by (simp add: spread_def distinct_foldl_put)

lemma js_get_merged_options:
  assumes "k \<notin> fst ` set (own_props options)"
  shows "js_get (merged_options (constructor cfg) options) k = js_get (JObj (config (constructor cfg))) k"
proof -
  let ?o = "if options = JUndefined then JObj [] else options"
  have k: "k \<notin> fst ` set (own_props ?o)"
    using assms by simp
  have d: "distinct (map fst (config (constructor cfg)))"
    by (simp add: constructor_def distinct_spread)
  have "map_of (spread (spread [] (JObj (config (constructor cfg)))) ?o) k
          = map_of (spread [] (JObj (config (constructor cfg)))) k"
    by (rule spread_default [OF k])
  also have "\<dots> = map_of (config (constructor cfg)) k"
    using d by (simp add: spread_def map_of_foldl_put map_of_rev_distinct)
  finally show ?thesis
    by (simp add: merged_options_def)
qed

lemma config_defaults:
  assumes "k \<notin> fst ` set (own_props cfg)"
  shows "js_get (JObj (config (constructor cfg))) k
           = js_get (JObj [(''quality'', JNum 8), (''enableCompression'', JBool True)]) k"
  using spread_default [OF assms, of "[(''quality'', JNum 8), (''enableCompression'', JBool True)]"]
  by (simp add: constructor_def)

lemma js_set_Inl: "js_set v k x = Inl e \<Longrightarrow> e = TypeError"
  by (cases v) auto

lemma apply_compression_Inl: "apply_compression optimized analysis options = Inl e \<Longrightarrow> e = TypeError"
  by (auto simp add: apply_compression_def and_then_def js_read_def split: if_splits sum.splits
      dest: js_set_Inl)

lemma add_metadata_Inl: "add_metadata now optimized options = Inl e \<Longrightarrow> e = TypeError"
  by (auto simp add: add_metadata_def and_then_def js_read_def Let_def split: if_splits sum.splits
      dest: js_set_Inl)

lemma performLocalOptimizations_Inl:
  "performLocalOptimizations now animationData analysis options = Inl e
     \<Longrightarrow> e = TypeError \<or> e = SyntaxError"
  by (auto simp add: performLocalOptimizations_def and_then_def split: option.splits sum.splits
      dest: apply_compression_Inl add_metadata_Inl)

lemma optimizeLoop_Inr:
  assumes "optimizeLoop ns now random later this animationData options = Inr result"
  obtains analysis locallyOptimized where
    "isInitialized this"
    "analyzeLoop ns animationData = Inr analysis"
    "performLocalOptimizations now animationData analysis (merged_options this options) = Inr locallyOptimized"
    "result = JObj
       (obj_put
         (obj_put
           (obj_put
             (obj_put (spread [] locallyOptimized) ''optimized'' (JBool True))
             ''optimizationLevel'' (js_get (merged_options this options) ''quality''))
           ''sizeReduction'' (JStr (nat_to_string (nat \<lfloor>random * 30\<rfloor> + 10) @ ''%'')))
         ''timestamp'' (JStr later))"
  using assms
  by (auto simp add: optimizeLoop_def and_then_def Let_def split: if_splits sum.splits)

lemma invalid_iff: "(\<not> truthy a \<or> js_typeof a \<noteq> ''object'') \<longleftrightarrow> \<not> isArray a \<and> (\<forall>kvs. a \<noteq> JObj kvs)"
  by (cases a) auto

lemma analyzeLoop_invalid:
  "analyzeLoop ns a = Inl InvalidAnimationData \<longleftrightarrow> \<not> truthy a \<or> js_typeof a \<noteq> ''object''"
proof (cases "\<not> truthy a \<or> js_typeof a \<noteq> ''object''")
  case True
  then show ?thesis by (auto simp add: analyzeLoop_def)
next
  case False
  from estimate_Inr [of a ns] False obtain p where "estimateOptimizationPotential ns a = Inr p"
    by blast
  with False show ?thesis
    by (auto simp add: analyzeLoop_def Let_def and_then_def split: sum.splits dest: js_div_30_Inl(1))
qed

lemma analyzeLoop_Inl:
  "analyzeLoop ns a = Inl e \<Longrightarrow> e = InvalidAnimationData \<or> e = TypeError"
  by (auto simp add: analyzeLoop_def Let_def and_then_def estimateOptimizationPotential_def
      split: sum.splits if_splits option.splits dest: js_div_30_Inl(1))

lemma nat_to_string_25: "nat_to_string 25 = ''25''"
  by (simp add: digit_chars)

text \<open>C4, as stated, fails on a sequence: an array is not a structured record, and
  \<^verbatim>\<open>optimizeLoop\<close> takes it (its type is \<^verbatim>\<open>object\<close>) and resolves.\<close>

theorem optimizeLoop_array_counterexample:
  "\<not> structured_record (JArr [JNum 1, JNum 1] [])
   \<and> optimizeLoop integer_text ''2026-01-01T00:00:00.000Z'' (1 / 2) ''2026-01-01T00:00:01.000Z''
        (constructor JUndefined) (JArr [JNum 1, JNum 1] []) JUndefined
      = Inr (JObj [(''0'', JNum 1), (''1'', JNum 1),
                   (''metadata'', JObj [(''optimized'', JBool True),
                      (''optimizationDate'', JStr ''2026-01-01T00:00:00.000Z''),
                      (''optimizationOptions'',
                         JObj [(''quality'', JNum 8), (''enableCompression'', JBool True)])]),
                   (''optimized'', JBool True), (''optimizationLevel'', JNum 8),
                   (''sizeReduction'', JStr ''25%''), (''timestamp'', JStr ''2026-01-01T00:00:01.000Z'')])
   \<and> optimizeLoop integer_text ''2026-01-01T00:00:00.000Z'' (1 / 2) ''2026-01-01T00:00:01.000Z''
        (constructor JUndefined) (JArr [JNum 1, JNum 1] []) JUndefined
      \<noteq> Inl InvalidAnimationData"
proof -
  let ?A = "JArr [JNum 1, JNum 1] []"
  let ?now = "''2026-01-01T00:00:00.000Z''"
  obtain r where r: "analyzeLoop integer_text ?A = Inr r"
    using analyzeLoop_Inr [of ?A integer_text] by auto
  have rep: "repetitiveFrames r = []"
    using analyzeLoop_InrD(5) [OF r] by (simp add: js_or_def repetitive_scan.simps)
  have m: "merged_options (constructor JUndefined) JUndefined
             = JObj [(''quality'', JNum 8), (''enableCompression'', JBool True)]"
    by (simp add: merged_options_def constructor_def spread_def obj_put_def key_index_def is_digit_def)
  have l: "performLocalOptimizations ?now ?A r (JObj [(''quality'', JNum 8), (''enableCompression'', JBool True)])
      = Inr (JArr [JNum 1, JNum 1]
          [(''metadata'', JObj [(''optimized'', JBool True), (''optimizationDate'', JStr ?now),
             (''optimizationOptions'', JObj [(''quality'', JNum 8), (''enableCompression'', JBool True)])])])"
    using rep
    by (simp add: performLocalOptimizations_def apply_compression_def add_metadata_def and_then_def
        js_read_def js_or_def element_copy_def obj_put_def key_index_def is_digit_def Let_def)
  have o: "optimizeLoop integer_text ?now (1 / 2) ''2026-01-01T00:00:01.000Z''
        (constructor JUndefined) ?A JUndefined
      = Inr (JObj [(''0'', JNum 1), (''1'', JNum 1),
                   (''metadata'', JObj [(''optimized'', JBool True),
                      (''optimizationDate'', JStr ''2026-01-01T00:00:00.000Z''),
                      (''optimizationOptions'',
                         JObj [(''quality'', JNum 8), (''enableCompression'', JBool True)])]),
                   (''optimized'', JBool True), (''optimizationLevel'', JNum 8),
                   (''sizeReduction'', JStr ''25%''), (''timestamp'', JStr ''2026-01-01T00:00:01.000Z'')])"
    unfolding optimizeLoop_def Let_def m r and_then_def
    by (simp add: l constructor_def spread_def obj_put_def key_index_def is_digit_def digits_value_def
        nat_to_string_25 digit_chars upt_rec)
  show ?thesis
    using o by simp
qed

text \<open>
  C4, amended.  On an optimizer that the constructor has built, \<^verbatim>\<open>optimizeLoop\<close> is rejected
  with \<^verbatim>\<open>Error('Invalid animation data')\<close> exactly when the animation is falsy or not of type
  \<^verbatim>\<open>object\<close>, that is when it is neither an object nor an array (absent, \<^verbatim>\<open>null\<close>, a boolean,
  a number or a string); an array is taken like a record.  The error is the one that
  \<^verbatim>\<open>_analyzeLoop\<close> throws, and every error of \<^verbatim>\<open>_analyzeLoop\<close> is the outcome of the call as it
  is: the call is rejected with it and resolves to nothing.
\<close>

theorem optimizeLoop_invalid_animation:
  assumes "isInitialized this"
  shows "(optimizeLoop ns now random later this animationData options = Inl InvalidAnimationData
            \<longleftrightarrow> \<not> truthy animationData \<or> js_typeof animationData \<noteq> ''object'')
       \<and> (\<not> truthy animationData \<or> js_typeof animationData \<noteq> ''object''
            \<longleftrightarrow> \<not> isArray animationData \<and> (\<forall>kvs. animationData \<noteq> JObj kvs))
       \<and> (optimizeLoop ns now random later this animationData options = Inl InvalidAnimationData
            \<longleftrightarrow> analyzeLoop ns animationData = Inl InvalidAnimationData)
       \<and> (\<forall>e. analyzeLoop ns animationData = Inl e
            \<longrightarrow> optimizeLoop ns now random later this animationData options = Inl e)
       \<and> isInitialized (constructor cfg)"
proof -
  let ?bad = "\<not> truthy animationData \<or> js_typeof animationData \<noteq> ''object''"
  have a: "analyzeLoop ns animationData = Inl InvalidAnimationData \<longleftrightarrow> ?bad"
    by (simp add: analyzeLoop_invalid)
  have p: "optimizeLoop ns now random later this animationData options = Inl e"
    if "analyzeLoop ns animationData = Inl e" for e
    using that assms by (simp add: optimizeLoop_def and_then_def Let_def)
  have 1: "optimizeLoop ns now random later this animationData options = Inl InvalidAnimationData"
    if ?bad
    using that a p by blast
  have 2: ?bad
    if o: "optimizeLoop ns now random later this animationData options = Inl InvalidAnimationData"
  proof (cases "analyzeLoop ns animationData")
    case (Inl e)
    with p [OF Inl] o a show ?thesis by simp
  next
    case (Inr r)
    show ?thesis
    proof (cases "performLocalOptimizations now animationData r (merged_options this options)")
      case (Inl e)
      then have "optimizeLoop ns now random later this animationData options = Inl e"
        using assms Inr by (simp add: optimizeLoop_def and_then_def Let_def)
      with o performLocalOptimizations_Inl [OF Inl] show ?thesis by auto
    next
      case (Inr lo)
      then have "\<exists>x. optimizeLoop ns now random later this animationData options = Inr x"
        using assms \<open>analyzeLoop ns animationData = Inr r\<close>
        by (simp add: optimizeLoop_def and_then_def Let_def)
      with o show ?thesis by auto
    qed
  qed
  have 3: "isInitialized (constructor cfg)"
    by (simp add: constructor_def)
  have 4: "optimizeLoop ns now random later this animationData options = Inl InvalidAnimationData
            \<longleftrightarrow> ?bad"
    using 1 2 by blast
  show ?thesis
    apply (intro conjI)
        apply (rule 4)
       apply (rule invalid_iff)
      apply (simp only: 4 a)
     apply (intro allI impI, erule p)
    apply (rule 3)
    done
qed

theorem optimizeLoop_invalid_animation_witness:
  "isInitialized (constructor JUndefined)
   \<and> optimizeLoop integer_text ''2026-01-01T00:00:00.000Z'' (1 / 2) ''2026-01-01T00:00:01.000Z''
        (constructor JUndefined) JUndefined JUndefined = Inl InvalidAnimationData
   \<and> optimizeLoop integer_text ''2026-01-01T00:00:00.000Z'' (1 / 2) ''2026-01-01T00:00:01.000Z''
        (constructor JUndefined) (JStr ''frames'') JUndefined = Inl InvalidAnimationData
   \<and> optimizeLoop integer_text ''2026-01-01T00:00:00.000Z'' (1 / 2) ''2026-01-01T00:00:01.000Z''
        (constructor JUndefined) (JObj []) JUndefined \<noteq> Inl InvalidAnimationData
   \<and> optimizeLoop integer_text ''2026-01-01T00:00:00.000Z'' (1 / 2) ''2026-01-01T00:00:01.000Z''
        (constructor JUndefined) (JArr [JNull] []) JUndefined \<noteq> Inl InvalidAnimationData
   \<and> analyzeLoop integer_text (JObj [(''frames'', JObj [(''length'', JObj [(''toString'', JNull)])])])
        = Inl TypeError
   \<and> optimizeLoop integer_text ''2026-01-01T00:00:00.000Z'' (1 / 2) ''2026-01-01T00:00:01.000Z''
        (constructor JUndefined)
        (JObj [(''frames'', JObj [(''length'', JObj [(''toString'', JNull)])])]) JUndefined
      = Inl TypeError"
proof -
  let ?T = "JObj [(''frames'', JObj [(''length'', JObj [(''toString'', JNull)])])]"
  have i: "isInitialized (constructor JUndefined)"
    by (simp add: constructor_def)
  have b1: "\<not> truthy JUndefined \<or> js_typeof JUndefined \<noteq> ''object''"
    by simp
  have b2: "\<not> truthy (JStr ''frames'') \<or> js_typeof (JStr ''frames'') \<noteq> ''object''"
    by simp
  have b3: "\<not> (\<not> truthy (JObj []) \<or> js_typeof (JObj []) \<noteq> ''object'')"
    by simp
  have b4: "\<not> (\<not> truthy (JArr [JNull] []) \<or> js_typeof (JArr [JNull] []) \<noteq> ''object'')"
    by simp
  have b5: "analyzeLoop integer_text ?T = Inl TypeError"
    by (simp add: analyzeLoop_def js_or_def js_div_30_def and_then_def Let_def)
  note t = optimizeLoop_invalid_animation [OF i, of integer_text "''2026-01-01T00:00:00.000Z''" "1 / 2" "''2026-01-01T00:00:01.000Z''",
      THEN conjunct1]
  note u = optimizeLoop_invalid_animation [OF i, of integer_text "''2026-01-01T00:00:00.000Z''" "1 / 2" "''2026-01-01T00:00:01.000Z''" ?T JUndefined,
      THEN conjunct2, THEN conjunct2, THEN conjunct2, THEN conjunct1, THEN spec, THEN mp, OF b5]
  have 1: "optimizeLoop integer_text ''2026-01-01T00:00:00.000Z'' (1 / 2) ''2026-01-01T00:00:01.000Z''
        (constructor JUndefined) JUndefined JUndefined = Inl InvalidAnimationData"
    using t [of JUndefined JUndefined] b1 by (rule iffD2)
  have 2: "optimizeLoop integer_text ''2026-01-01T00:00:00.000Z'' (1 / 2) ''2026-01-01T00:00:01.000Z''
        (constructor JUndefined) (JStr ''frames'') JUndefined = Inl InvalidAnimationData"
    using t [of "JStr ''frames''" JUndefined] b2 by (rule iffD2)
  have 3: "optimizeLoop integer_text ''2026-01-01T00:00:00.000Z'' (1 / 2) ''2026-01-01T00:00:01.000Z''
        (constructor JUndefined) (JObj []) JUndefined \<noteq> Inl InvalidAnimationData"
    using t [of "JObj []" JUndefined] b3 by blast
  have 4: "optimizeLoop integer_text ''2026-01-01T00:00:00.000Z'' (1 / 2) ''2026-01-01T00:00:01.000Z''
        (constructor JUndefined) (JArr [JNull] []) JUndefined \<noteq> Inl InvalidAnimationData"
    using t [of "JArr [JNull] []" JUndefined] b4 by blast
  from i 1 2 3 4 b5 u show ?thesis
    by (intro conjI)
qed

lemma js_set_obj:
  assumes "js_set (JObj kvs) k x = Inr v" and "distinct (map fst kvs)"
  shows "\<exists>kvs'. v = JObj kvs' \<and> distinct (map fst kvs')"
  using assms by (auto simp add: distinct_obj_put)

lemma performLocalOptimizations_obj:
  assumes js: "is_json animationData" and obj: "animationData = JObj kvs"
    and out: "performLocalOptimizations now animationData analysis options = Inr out"
  shows "\<exists>kvs'. out = JObj kvs' \<and> distinct (map fst kvs')"
proof -
  have d: "distinct (map fst kvs)"
    using js obj by simp
  from out json_copy_is_json [OF js] obtain o1 where
    c: "apply_compression animationData analysis options = Inr o1"
    and m: "add_metadata now o1 options = Inr out"
    by (auto simp add: performLocalOptimizations_def and_then_def split: sum.splits)
  have "\<exists>kvs1. o1 = JObj kvs1 \<and> distinct (map fst kvs1)"
  proof (cases "repetitiveFrames analysis \<noteq> [] \<and> truthy (js_get options ''enableCompression'')")
    case False
    then have "o1 = animationData"
      using apply_compression_off [OF c] by blast
    with obj d show ?thesis by simp
  next
    case True
    with apply_compression_on [OF c] obj d show ?thesis
      by (auto simp add: distinct_obj_put)
  qed
  then obtain kvs1 where o1: "o1 = JObj kvs1" and d1: "distinct (map fst kvs1)"
    by blast
  from m obtain o2 m3 where
    s1: "js_set o1 ''metadata'' (js_or (js_get o1 ''metadata'') (JObj [])) = Inr o2"
    and s2: "js_set o2 ''metadata'' m3 = Inr out"
    by (auto simp add: add_metadata_def and_then_def js_read_def Let_def split: sum.splits if_splits)
  from js_set_obj [OF s1 [unfolded o1] d1] obtain kvs2
    where o2: "o2 = JObj kvs2" and d2: "distinct (map fst kvs2)"
    by blast
  from js_set_obj [OF s2 [unfolded o2] d2] show ?thesis .
qed

text \<open>
  C10.  When the configuration given to the constructor is missing, or has neither a
  \<^verbatim>\<open>quality\<close> nor an \<^verbatim>\<open>enableCompression\<close> key, the configuration of the optimizer holds
  \<^verbatim>\<open>quality = 8\<close> and \<^verbatim>\<open>enableCompression = true\<close>, and so do the options merged for a call
  without options of its own.  Such a call, when it returns, returns a result with
  \<^verbatim>\<open>optimizationLevel = 8\<close>, and the repetitive frames of a JSON animation record are removed
  from the \<^verbatim>\<open>frames\<close> of the result.
\<close>

theorem default_options:
  assumes "''quality'' \<notin> fst ` set (own_props cfg)"
    and "''enableCompression'' \<notin> fst ` set (own_props cfg)"
    and "own_props options = []"
  shows "js_get (JObj (config (constructor cfg))) ''quality'' = JNum 8
       \<and> js_get (JObj (config (constructor cfg))) ''enableCompression'' = JBool True
       \<and> js_get (merged_options (constructor cfg) options) ''quality'' = JNum 8
       \<and> js_get (merged_options (constructor cfg) options) ''enableCompression'' = JBool True
       \<and> (optimizeLoop ns now random later (constructor cfg) animationData options = Inr result \<longrightarrow>
            js_get result ''optimizationLevel'' = JNum 8
          \<and> (is_json animationData \<and> animationData = JObj kvs
               \<and> analyzeLoop ns animationData = Inr analysis \<and> repetitiveFrames analysis \<noteq> [] \<longrightarrow>
              (\<exists>frames. js_get animationData ''frames'' = JArr frames []
                  \<and> js_get result ''frames'' = JArr (nths frames (- set (repetitiveFrames analysis))) [])))"
proof -
  let ?opt = "constructor cfg"
  let ?opts = "merged_options ?opt options"
  have c1: "js_get (JObj (config ?opt)) ''quality'' = JNum 8"
    using config_defaults [OF assms(1)] by simp
  have c2: "js_get (JObj (config ?opt)) ''enableCompression'' = JBool True"
    using config_defaults [OF assms(2)] by simp
  have m1: "js_get ?opts ''quality'' = JNum 8"
    using js_get_merged_options [of "''quality''" options cfg] assms(3) c1 by simp
  have m2: "js_get ?opts ''enableCompression'' = JBool True"
    using js_get_merged_options [of "''enableCompression''" options cfg] assms(3) c2 by simp
  have r: "js_get result ''optimizationLevel'' = JNum 8
          \<and> (is_json animationData \<and> animationData = JObj kvs
               \<and> analyzeLoop ns animationData = Inr analysis \<and> repetitiveFrames analysis \<noteq> [] \<longrightarrow>
              (\<exists>frames. js_get animationData ''frames'' = JArr frames []
                  \<and> js_get result ''frames'' = JArr (nths frames (- set (repetitiveFrames analysis))) []))"
    if o: "optimizeLoop ns now random later ?opt animationData options = Inr result"
  proof -
    from optimizeLoop_Inr [OF o] obtain an lo where
      an: "analyzeLoop ns animationData = Inr an"
      and lo: "performLocalOptimizations now animationData an ?opts = Inr lo"
      and res: "result = JObj
       (obj_put
         (obj_put
           (obj_put
             (obj_put (spread [] lo) ''optimized'' (JBool True))
             ''optimizationLevel'' (js_get ?opts ''quality''))
           ''sizeReduction'' (JStr (nat_to_string (nat \<lfloor>random * 30\<rfloor> + 10) @ ''%'')))
         ''timestamp'' (JStr later))"
      by blast
    have lvl: "js_get result ''optimizationLevel'' = JNum 8"
      unfolding res using m1 by (simp add: map_of_obj_put)
    have fr: "\<exists>frames. js_get animationData ''frames'' = JArr frames []
                  \<and> js_get result ''frames'' = JArr (nths frames (- set (repetitiveFrames analysis))) []"
      if js: "is_json animationData" and obj: "animationData = JObj kvs"
        and an': "analyzeLoop ns animationData = Inr analysis" and rep: "repetitiveFrames analysis \<noteq> []"
    proof -
      have same: "an = analysis" using an an' by simp
      from performLocalOptimizations_frames [OF an js lo] rep m2 same
      obtain frames where f: "js_get animationData ''frames'' = JArr frames []"
        and g: "js_get lo ''frames'' = JArr (nths frames (- set (repetitiveFrames analysis))) []"
        by auto
      have "\<exists>kvs'. lo = JObj kvs' \<and> distinct (map fst kvs')"
        using performLocalOptimizations_obj [OF js obj lo] .
      then obtain kvs' where l: "lo = JObj kvs'" and d: "distinct (map fst kvs')" by blast
      have "js_get result ''frames'' = js_get (JObj (spread [] lo)) ''frames''"
        unfolding res by (simp add: map_of_obj_put)
      also have "\<dots> = js_get lo ''frames''"
        unfolding l by (rule js_get_spread_obj [OF d])
      finally show ?thesis using f g by simp
    qed
    show ?thesis using lvl fr by blast
  qed
  show ?thesis
    apply (intro conjI impI)
         apply (rule c1)
        apply (rule c2)
       apply (rule m1)
      apply (rule m2)
     apply (erule r [THEN conjunct1])
    apply (drule r [THEN conjunct2])
    apply blast
    done
qed


lemma optimizeLoop_returns:
  assumes "isInitialized this" and "is_json animationData"
    and "isArray animationData \<or> (\<exists>kvs. animationData = JObj kvs)"
    and "\<not> truthy (js_get animationData ''metadata'') \<or> isArray (js_get animationData ''metadata'')
         \<or> (\<exists>kvs. js_get animationData ''metadata'' = JObj kvs)"
    and "truthy (js_get animationData ''duration'') \<or> \<not> truthy (js_get animationData ''frames'')
         \<or> isArray (js_get animationData ''frames'')"
  shows "\<exists>result. optimizeLoop ns now random later this animationData options = Inr result"
proof -
  have "truthy animationData" "js_typeof animationData = ''object''"
    using assms(3) by (cases animationData; auto)+
  then obtain an where an: "analyzeLoop ns animationData = Inr an"
    using analyzeLoop_Inr [OF _ _ assms(5), of ns] by auto
  have "merged_options this options \<noteq> JUndefined" "merged_options this options \<noteq> JNull"
    by (simp_all add: merged_options_def)
  from performLocalOptimizations_Inr [OF assms(2,3) this assms(4), of now an]
  obtain lo where "performLocalOptimizations now animationData an (merged_options this options) = Inr lo"
    by blast
  then show ?thesis
    using assms(1) an by (simp add: optimizeLoop_def and_then_def Let_def)
qed

theorem default_options_witness:
  "''quality'' \<notin> fst ` set (own_props JUndefined)
   \<and> ''enableCompression'' \<notin> fst ` set (own_props JUndefined)
   \<and> own_props JUndefined = []
   \<and> (\<exists>result.
        optimizeLoop integer_text ''2026-01-01T00:00:00.000Z'' (1 / 2) ''2026-01-01T00:00:01.000Z''
          (constructor JUndefined)
          (JObj [(''frames'', JArr [JStr ''a'', JStr ''a'', JStr ''a'', JStr ''b''] [])]) JUndefined
          = Inr result
      \<and> js_get result ''optimizationLevel'' = JNum 8
      \<and> js_get result ''frames'' = JArr [JStr ''a'', JStr ''b''] [])"
proof -
  let ?fs = "[JStr ''a'', JStr ''a'', JStr ''a'', JStr ''b'']"
  let ?X = "JObj [(''frames'', JArr ?fs [])]"
  let ?now = "''2026-01-01T00:00:00.000Z''" and ?later = "''2026-01-01T00:00:01.000Z''"
  have h1: "''quality'' \<notin> fst ` set (own_props JUndefined)"
    and h2: "''enableCompression'' \<notin> fst ` set (own_props JUndefined)"
    and h3: "own_props JUndefined = []"
    by simp_all
  have i: "isInitialized (constructor JUndefined)"
    by (simp add: constructor_def)
  have js: "is_json ?X"
    by simp
  obtain r where r: "analyzeLoop integer_text ?X = Inr r"
    using analyzeLoop_Inr [of ?X integer_text] by auto
  have "json_stringify integer_text (JStr ''a'') \<noteq> json_stringify integer_text (JStr ''b'')"
    by (simp add: quote_json_def quote_char_def)
  then have rep: "repetitiveFrames r = [1, 2]"
    using analyzeLoop_InrD(5) [OF r] identify_AAAB [of integer_text "JStr ''a''" "JStr ''b''" "[]"]
    by (simp add: js_or_def)
  obtain result where res:
    "optimizeLoop integer_text ?now (1 / 2) ?later (constructor JUndefined) ?X JUndefined = Inr result"
    using optimizeLoop_returns [OF i js, of integer_text ?now "1 / 2" ?later JUndefined] by auto
  note t = default_options [OF h1 h2 h3, of integer_text ?now "1 / 2" ?later ?X result
      "[(''frames'', JArr ?fs [])]" r]
  from t res have lvl: "js_get result ''optimizationLevel'' = JNum 8"
    by blast
  from t res js r rep obtain frames where
    "js_get ?X ''frames'' = JArr frames []"
    "js_get result ''frames'' = JArr (nths frames (- set [1, 2])) []"
    by auto
  then have "js_get result ''frames'' = JArr [JStr ''a'', JStr ''b''] []"
    by (auto simp add: nths_Cons)
  with res lvl h1 h2 h3 show ?thesis
    by blast
qed

subsection \<open>Writes to the store\<close>





























subsection \<open>The text of a copy\<close>






subsection \<open>Local optimizations of any object\<close>














subsection \<open>The copy in the store\<close>











subsection \<open>The original animation\<close>










end
